theory Spec2Isabelle
  imports Complex_Main
begin

section \<open>Platform values\<close>

text \<open>
  JavaScript numbers are modelled as real numbers with exact arithmetic; the one
  non-number value the code tests for, NaN, is a separate constructor of the stored
  field values below.  A \<open>Date\<close> is its \<open>getTime()\<close> value, integer milliseconds
  since the epoch.  Strings are lists of 8-bit characters; the string functions below
  are those of JavaScript on ASCII text.
\<close>

type_synonym instant = int

text \<open>
  \<open>Number(x.toFixed(2))\<close>: \<open>toFixed\<close> takes the sign off, picks the integer \<open>n\<close> with
  \<open>n / 100\<close> closest to the value, the larger one on a tie, and puts the sign back.
\<close>

definition toFixed2 :: "real \<Rightarrow> real" where
  "toFixed2 x =
     (if x < 0 then - (real_of_int \<lfloor>- x * 100 + 1 / 2\<rfloor> / 100)
      else real_of_int \<lfloor>x * 100 + 1 / 2\<rfloor> / 100)"

text \<open>
  \<open>Intl.DateTimeFormat\<close> with \<open>timeZone: "Asia/Kuala_Lumpur"\<close>: the zone is UTC+08:00
  without daylight saving (the administrator pages write the same offset as
  \<open>KL_OFFSET = "+08:00"\<close>), so the formatted hour and minute are those of the instant
  moved by eight hours; with \<open>hour12: false\<close> the hour runs from 0 to 23.
\<close>

definition KL_OFFSET_MS :: int where
  "KL_OFFSET_MS = 8 * 3600000"

definition getTimeMinutes :: "instant \<Rightarrow> int" where
  "getTimeMinutes date =
     (let local = date + KL_OFFSET_MS;
          hour = (local div 3600000) mod 24;
          minute = (local div 60000) mod 60
      in hour * 60 + minute)"

text \<open>
  \<open>getDateKey\<close> formats the same local instant as year-month-day (\<open>en-CA\<close>, two-digit
  month and day).  The civil date is computed from the day number in the proleptic
  Gregorian calendar; the definition stands for the platform's formatter for years from
  1 on.
\<close>

fun showNat :: "nat \<Rightarrow> string" where
  "showNat n =
     (if n < 10 then [char_of (48 + n)]
      else showNat (n div 10) @ [char_of (48 + n mod 10)])"

declare showNat.simps [simp del]

definition pad2 :: "nat \<Rightarrow> string" where
  "pad2 n = (if n < 10 then CHR ''0'' # showNat n else showNat n)"

definition civilFromDays :: "int \<Rightarrow> int \<times> int \<times> int" where
  "civilFromDays days =
     (let z = days + 719468;
          era = z div 146097;
          doe = z mod 146097;
          yoe = (doe - doe div 1460 + doe div 36524 - doe div 146096) div 365;
          doy = doe - (365 * yoe + yoe div 4 - yoe div 100);
          mp = (5 * doy + 2) div 153;
          d = doy - (153 * mp + 2) div 5 + 1;
          m = (if mp < 10 then mp + 3 else mp - 9);
          y = yoe + era * 400
      in (if m \<le> 2 then y + 1 else y, m, d))"

definition getDateKey :: "instant \<Rightarrow> string" where
  "getDateKey date =
     (case civilFromDays ((date + KL_OFFSET_MS) div 86400000) of
        (y, m, d) \<Rightarrow> showNat (nat y) @ ''-'' @ pad2 (nat m) @ ''-'' @ pad2 (nat d))"

subsection \<open>Strings\<close>

text \<open>White space as \<open>trim\<close> and the pattern \<open>\s\<close> see it in ASCII: space, tab, line
  feed, vertical tab, form feed, carriage return.\<close>

definition isSpace :: "char \<Rightarrow> bool" where
  "isSpace c = (c \<in> set [CHR '' '', CHR 0x09, CHR 0x0A, CHR 0x0B, CHR 0x0C, CHR 0x0D])"

definition jsTrim :: "string \<Rightarrow> string" where
  "jsTrim s = rev (dropWhile isSpace (rev (dropWhile isSpace s)))"

definition lowerChar :: "char \<Rightarrow> char" where
  "lowerChar c =
     (let n = (of_char c :: nat) in if 65 \<le> n \<and> n \<le> 90 then char_of (n + 32) else c)"

definition toLowerCase :: "string \<Rightarrow> string" where
  "toLowerCase s = map lowerChar s"

text \<open>\<open>s.replace(/\s+/g, rep)\<close>: every maximal run of white space becomes \<open>rep\<close>; the
  flag says that the character before was white space.\<close>

fun replaceSpaces :: "string \<Rightarrow> bool \<Rightarrow> string \<Rightarrow> string" where
  "replaceSpaces rep inRun [] = []"
| "replaceSpaces rep inRun (c # cs) =
     (if isSpace c then (if inRun then [] else rep) @ replaceSpaces rep True cs
      else c # replaceSpaces rep False cs)"

text \<open>\<open>s.split(/[\s@._-]+/).filter(Boolean)\<close>: the maximal runs of characters that are
  not separators; \<open>cur\<close> is the run being read, reversed.\<close>

definition isSeparator :: "char \<Rightarrow> bool" where
  "isSeparator c = (isSpace c \<or> c \<in> set [CHR ''@'', CHR ''.'', CHR ''_'', CHR ''-''])"

fun splitParts :: "string \<Rightarrow> string \<Rightarrow> string list" where
  "splitParts cur [] = (if cur = [] then [] else [rev cur])"
| "splitParts cur (c # cs) =
     (if isSeparator c then (if cur = [] then [] else [rev cur]) @ splitParts [] cs
      else splitParts (c # cur) cs)"

text \<open>\<open>key.split("|")\<close>: the pieces between the separators, empty pieces included.\<close>

fun jsSplit :: "char \<Rightarrow> string \<Rightarrow> string \<Rightarrow> string list" where
  "jsSplit sep cur [] = [rev cur]"
| "jsSplit sep cur (c # cs) =
     (if c = sep then rev cur # jsSplit sep [] cs else jsSplit sep (c # cur) cs)"

text \<open>A JavaScript \<open>Set\<close> of strings keeps the order of first insertion.\<close>

definition setAdd :: "string \<Rightarrow> string list \<Rightarrow> string list" where
  "setAdd x xs = (if x \<in> set xs then xs else xs @ [x])"

definition slicesFrom0 :: "string \<Rightarrow> string list" where
  "slicesFrom0 s = map (\<lambda>i. take i s) [1 ..< Suc (length s)]"

definition normalizeSiteName :: "string \<Rightarrow> string" where
  "normalizeSiteName v = replaceSpaces '' '' False (toLowerCase (jsTrim v))"

definition buildPrefixes :: "string \<Rightarrow> string list" where
  "buildPrefixes v =
     (let normalized = toLowerCase (jsTrim v);
          parts = splitParts [] normalized;
          condensed = replaceSpaces [] False normalized;
          prefixes = (if condensed \<noteq> [] then fold setAdd (slicesFrom0 condensed) [] else [])
      in fold (\<lambda>part acc. fold setAdd (slicesFrom0 part) acc) parts prefixes)"

definition buildSearchPrefixes :: "string list \<Rightarrow> string list" where
  "buildSearchPrefixes vs = fold (\<lambda>v acc. fold setAdd (buildPrefixes v) acc) vs []"

section \<open>Data model\<close>

datatype scan_type = CheckIn | CheckOut

datatype log_status = Success | Fail

datatype created_by = Scanner | Admin

text \<open>A document of the \<open>attendance\<close> collection (type \<open>AttendanceLog\<close>), with the
  fields the scanner and the two aggregation paths read or write; optional fields are
  options, \<open>None\<close> standing for a missing field.\<close>

record attendanceLog =
  log_userId :: string
  log_userEmail :: string
  log_userName :: "string option"
  log_siteId :: string
  log_siteName :: string
  log_scanTime :: instant
  log_dateKey :: "string option"
  log_userLat :: "real option"
  log_userLng :: "real option"
  log_distanceMeters :: "real option"
  log_allowedRadiusMeters :: "real option"
  log_status :: log_status
  log_scanType :: "scan_type option"
  log_failReason :: "string option"
  log_isDeleted :: "bool option"
  log_createdBy :: "created_by option"
  log_createdAt :: "instant option"
  log_searchPrefixes :: "string list"

text \<open>The four thresholds returned by \<open>getBufferSettings\<close>.\<close>

record bufferSettings =
  lateBufferMinutes :: real
  earlyCheckoutBufferMinutes :: real
  otEarlyBufferMinutes :: real
  otLateBufferMinutes :: real

datatype session_status = Complete | Incomplete

text \<open>
  The text \<open>`Check-in after 8:00 + ${lateBufferMinutes} min`\<close>.  The conversion of a
  number to its text is one-to-one, so the text is represented by the number put in it.
\<close>

datatype late_reason = CheckInAfter8Plus real

text \<open>A user document (type \<open>UserProfile\<close>); the code reads \<open>name\<close> with a
  fallback, so it is optional here.\<close>

record userProfile =
  prof_uid :: string
  prof_email :: string
  prof_name :: "string option"
  prof_employeeId :: "string option"
  prof_normalRate :: "real option"
  prof_otRate :: "real option"

text \<open>A document of the \<open>sites\<close> collection (type \<open>SiteItem\<close> without its id).\<close>

record siteItem =
  site_name :: string
  site_nameNormalized :: string
  site_lat :: real
  site_lng :: real
  site_allowedRadiusMeters :: real

text \<open>The object both aggregation paths pass to \<open>batch.set\<close>.\<close>

record attendanceSession =
  ses_userId :: string
  ses_userEmail :: string
  ses_userName :: string
  ses_siteId :: "string option"
  ses_siteName :: "string option"
  ses_siteInId :: "string option"
  ses_siteInName :: "string option"
  ses_siteOutId :: "string option"
  ses_siteOutName :: "string option"
  ses_dateKey :: string
  ses_checkInTime :: "instant option"
  ses_checkOutTime :: "instant option"
  ses_totalHours :: "real option"
  ses_normalHours :: "real option"
  ses_otHours :: "real option"
  ses_normalRate :: real
  ses_otRate :: real
  ses_amountRM :: "real option"
  ses_status :: session_status
  ses_isLate :: bool
  ses_lateReason :: "late_reason option"
  ses_lateNote :: "string option"
  ses_isAbnormal :: bool
  ses_abnormalReasons :: "string list"
  ses_abnormalNote :: "string option"
  ses_searchPrefixes :: "string list"

text \<open>Values of the fields of the \<open>settings/global\<close> document.\<close>

datatype fs_value = FsNull | FsBool bool | FsNumber real | FsNaN | FsString string

subsection \<open>The document store\<close>

text \<open>
  A collection is the list of its documents, each an id with its data.  A query with
  \<open>orderBy("scanTime")\<close> is a stable sort of the matching documents: documents with the
  same \<open>scanTime\<close> keep the order they have in the collection, which stands for the
  order of the index.  A write batch is a list of writes, and \<open>batch.commit()\<close> applies
  the whole list in one step.
\<close>

type_synonym 'a collection = "(string \<times> 'a) list"

datatype 'a batch_write = BatchDelete string | BatchSet string 'a

fun applyWrite :: "'a batch_write \<Rightarrow> 'a collection \<Rightarrow> 'a collection" where
  "applyWrite (BatchDelete ref) c = filter (\<lambda>d. fst d \<noteq> ref) c"
| "applyWrite (BatchSet ref v) c =
     (if ref \<in> fst ` set c then map (\<lambda>d. if fst d = ref then (ref, v) else d) c
      else c @ [(ref, v)])"

definition batchCommit :: "'a batch_write list \<Rightarrow> 'a collection \<Rightarrow> 'a collection" where
  "batchCommit batch c = fold applyWrite batch c"

record firestore =
  db_attendance :: "attendanceLog collection"
  db_attendanceSessions :: "attendanceSession collection"
  db_sites :: "siteItem collection"
  db_settings :: "(string \<times> fs_value) list option"

section \<open>Session aggregation: the computation shared by both paths\<close>

text \<open>
  Lines 164 to 304 of \<open>ScannerPage.tsx\<close> (\<open>rebuildSessionsForDay\<close>) and lines 481 to
  618 of the administrator dashboard (\<open>recomputeSessionsForRange\<close>) are the same
  statements; they differ in \<open>.toDate()\<close>, in the explicit time-zone argument, in the
  place of the \<open>isLate\<close> block and in where the user's name, e-mail and rates come
  from.  Each statement is one definition here, named after the variable it assigns,
  and both paths below call the sequence with their own inputs.
\<close>

definition totalHoursRaw :: "instant option \<Rightarrow> instant option \<Rightarrow> real option" where
  "totalHoursRaw checkInTime checkOutTime =
     (case checkInTime of
        None \<Rightarrow> None
      | Some ci \<Rightarrow>
          (case checkOutTime of
             None \<Rightarrow> None
           | Some co \<Rightarrow> Some (max (real_of_int (co - ci) / 3600000) 0)))"

definition isWithinEarlyCheckoutBuffer :: "int option \<Rightarrow> real \<Rightarrow> bool" where
  "isWithinEarlyCheckoutBuffer checkOutMinutes earlyBuf =
     (case checkOutMinutes of
        None \<Rightarrow> False
      | Some m \<Rightarrow> real_of_int m \<ge> 17 * 60 - earlyBuf \<and> real_of_int m \<le> 17 * 60)"

definition totalHoursAdjusted :: "real option \<Rightarrow> int option \<Rightarrow> real \<Rightarrow> real option" where
  "totalHoursAdjusted raw checkOutMinutes earlyBuf =
     (case raw of
        None \<Rightarrow> None
      | Some t \<Rightarrow>
          (case checkOutMinutes of
             None \<Rightarrow> Some t
           | Some m \<Rightarrow>
               if isWithinEarlyCheckoutBuffer checkOutMinutes earlyBuf
               then Some (t + max (17 * 60 - real_of_int m) 0 / 60)
               else Some t))"

definition totalHoursRounded :: "real option \<Rightarrow> real option" where
  "totalHoursRounded adjusted = map_option toFixed2 adjusted"

definition isLate :: "int option \<Rightarrow> real \<Rightarrow> bool" where
  "isLate checkInMinutes lateBuf =
     (case checkInMinutes of
        None \<Rightarrow> False
      | Some m \<Rightarrow> real_of_int m > 8 * 60 + lateBuf)"

definition lateReason :: "bool \<Rightarrow> real \<Rightarrow> late_reason option" where
  "lateReason late lateBuf = (if late then Some (CheckInAfter8Plus lateBuf) else None)"

definition otLateWindowEnd :: "real \<Rightarrow> real" where
  "otLateWindowEnd otLateBuf = 22 * 60 + otLateBuf"

definition otEarlyWindowStart :: "real \<Rightarrow> real" where
  "otEarlyWindowStart otEarlyBuf = 22 * 60 - otEarlyBuf"

text \<open>The pushes onto \<open>abnormalReasons\<close>, in the order of the source.\<close>

definition abnormalReasons ::
  "instant option \<Rightarrow> instant option \<Rightarrow> real option \<Rightarrow> int option \<Rightarrow> real \<Rightarrow> string list" where
  "abnormalReasons checkInTime checkOutTime rounded checkOutMinutes otLateBuf =
     (let r0 = [];
          r1 = (if checkInTime = None then r0 @ [''Missing check-in''] else r0);
          r2 = (if checkOutTime = None then r1 @ [''Missing check-out''] else r1);
          r3 = (case rounded of
                  None \<Rightarrow> r2
                | Some t \<Rightarrow> if t < 9 then r2 @ [''Total hours < 9''] else r2);
          r4 = (case checkOutMinutes of
                  None \<Rightarrow> r3
                | Some m \<Rightarrow>
                    if real_of_int m > otLateWindowEnd otLateBuf
                    then r3 @ [''Checkout after 10pm''] else r3)
      in r4)"

text \<open>The effective checkout is a number of minutes: the checkout minutes (an integer)
  or \<open>22 * 60\<close>.\<close>

definition effectiveOtCheckoutMinutes :: "int option \<Rightarrow> real \<Rightarrow> real \<Rightarrow> int option" where
  "effectiveOtCheckoutMinutes checkOutMinutes otEarlyBuf otLateBuf =
     (case checkOutMinutes of
        None \<Rightarrow> None
      | Some m \<Rightarrow>
          if real_of_int m \<ge> otEarlyWindowStart otEarlyBuf
             \<and> real_of_int m \<le> otLateWindowEnd otLateBuf
          then Some (22 * 60)
          else Some m)"

definition otHours :: "real option \<Rightarrow> int option \<Rightarrow> real" where
  "otHours rounded effective =
     (case rounded of
        None \<Rightarrow> 0
      | Some t \<Rightarrow>
          (case effective of
             None \<Rightarrow> 0
           | Some e \<Rightarrow>
               if t \<ge> 9 then
                 (if e \<ge> 22 * 60 then 4 else if e \<ge> 19 * 60 then 2 else 0)
               else 0))"

definition normalHours :: "bool \<Rightarrow> real option \<Rightarrow> real option" where
  "normalHours abnormal rounded =
     (case rounded of
        None \<Rightarrow> None
      | Some t \<Rightarrow> if \<not> abnormal then Some (toFixed2 (min t 9)) else None)"

definition otHoursRounded :: "bool \<Rightarrow> real \<Rightarrow> real option" where
  "otHoursRounded abnormal ot = (if \<not> abnormal then Some ot else None)"

definition sessionStatus :: "instant option \<Rightarrow> instant option \<Rightarrow> session_status" where
  "sessionStatus checkInTime checkOutTime =
     (if checkInTime \<noteq> None \<and> checkOutTime \<noteq> None then Complete else Incomplete)"

text \<open>\<open>(normalHours ?? 0) * normalRate + (otHoursRounded ?? 0) * otRate\<close>, through
  \<open>toFixed(2)\<close>, or null for an abnormal session.\<close>

definition amountRM :: "bool \<Rightarrow> real option \<Rightarrow> real option \<Rightarrow> real \<Rightarrow> real \<Rightarrow> real option" where
  "amountRM abnormal nh oth normalRate otRate =
     (if abnormal then None
      else Some (toFixed2 ((case nh of None \<Rightarrow> 0 | Some h \<Rightarrow> h) * normalRate
                           + (case oth of None \<Rightarrow> 0 | Some h \<Rightarrow> h) * otRate)))"

text \<open>Whose session it is: \<open>userId\<close>, \<open>userEmail\<close>, \<open>userName\<close>, the employee id that
  goes into the search prefixes, and the two rates, after each path's fallbacks.\<close>

record sessionOwner =
  own_userId :: string
  own_userEmail :: string
  own_userName :: string
  own_employeeId :: string
  own_normalRate :: real
  own_otRate :: real

text \<open>What is read off \<open>firstCheckIn\<close> or \<open>lastCheckOut\<close>: the scan time, the site id
  and the site name.\<close>

type_synonym endpoint = "instant \<times> string \<times> string"

definition orElse :: "'a option \<Rightarrow> 'a option \<Rightarrow> 'a option" where
  "orElse a b = (case a of None \<Rightarrow> b | Some x \<Rightarrow> Some x)"

text \<open>The statements in sequence, from the two end points to the object passed to
  \<open>batch.set\<close>.\<close>

definition sessionDoc ::
  "bufferSettings \<Rightarrow> sessionOwner \<Rightarrow> string \<Rightarrow> endpoint option \<Rightarrow> endpoint option
     \<Rightarrow> attendanceSession" where
  "sessionDoc cfg owner dateKey firstCheckIn lastCheckOut =
     (let checkInTime = map_option fst firstCheckIn;
          checkOutTime = map_option fst lastCheckOut;
          siteInId = map_option (fst \<circ> snd) firstCheckIn;
          siteInName = map_option (snd \<circ> snd) firstCheckIn;
          siteOutId = map_option (fst \<circ> snd) lastCheckOut;
          siteOutName = map_option (snd \<circ> snd) lastCheckOut;
          checkInMinutes = map_option getTimeMinutes checkInTime;
          checkOutMinutes = map_option getTimeMinutes checkOutTime;
          raw = totalHoursRaw checkInTime checkOutTime;
          adjusted = totalHoursAdjusted raw checkOutMinutes (earlyCheckoutBufferMinutes cfg);
          rounded = totalHoursRounded adjusted;
          late = isLate checkInMinutes (lateBufferMinutes cfg);
          reasons = abnormalReasons checkInTime checkOutTime rounded checkOutMinutes
                      (otLateBufferMinutes cfg);
          effective = effectiveOtCheckoutMinutes checkOutMinutes
                        (otEarlyBufferMinutes cfg) (otLateBufferMinutes cfg);
          ot = otHours rounded effective;
          abnormal = (length reasons > 0);
          nh = normalHours abnormal rounded;
          oth = otHoursRounded abnormal ot
      in \<lparr> ses_userId = own_userId owner,
           ses_userEmail = own_userEmail owner,
           ses_userName = own_userName owner,
           ses_siteId = orElse siteInId siteOutId,
           ses_siteName = orElse siteInName siteOutName,
           ses_siteInId = siteInId,
           ses_siteInName = siteInName,
           ses_siteOutId = siteOutId,
           ses_siteOutName = siteOutName,
           ses_dateKey = dateKey,
           ses_checkInTime = checkInTime,
           ses_checkOutTime = checkOutTime,
           ses_totalHours = rounded,
           ses_normalHours = nh,
           ses_otHours = oth,
           ses_normalRate = own_normalRate owner,
           ses_otRate = own_otRate owner,
           ses_amountRM = amountRM abnormal nh oth (own_normalRate owner) (own_otRate owner),
           ses_status = sessionStatus checkInTime checkOutTime,
           ses_isLate = late,
           ses_lateReason = lateReason late (lateBufferMinutes cfg),
           ses_lateNote = None,
           ses_isAbnormal = abnormal,
           ses_abnormalReasons = reasons,
           ses_abnormalNote = None,
           ses_searchPrefixes =
             buildSearchPrefixes [own_userName owner, own_userEmail owner, own_employeeId owner] \<rparr>)"

section \<open>Buffer settings\<close>

definition DEFAULT_BUFFER_SETTINGS :: bufferSettings where
  "DEFAULT_BUFFER_SETTINGS =
     \<lparr> lateBufferMinutes = 5,
       earlyCheckoutBufferMinutes = 5,
       otEarlyBufferMinutes = 15,
       otLateBufferMinutes = 60 \<rparr>"

text \<open>\<open>normalize\<close>: the value when \<open>typeof value === "number"\<close> and it is not NaN, the
  fallback otherwise; a missing field is \<open>None\<close>.\<close>

definition normalizeSetting :: "fs_value option \<Rightarrow> real \<Rightarrow> real" where
  "normalizeSetting v fallback =
     (case v of
        Some (FsNumber x) \<Rightarrow> x
      | _ \<Rightarrow> fallback)"

text \<open>The argument is the \<open>settings/global\<close> snapshot: \<open>None\<close> when the document does
  not exist.\<close>

definition getBufferSettings :: "(string \<times> fs_value) list option \<Rightarrow> bufferSettings" where
  "getBufferSettings snapshot =
     (let data = (case snapshot of Some kvs \<Rightarrow> kvs | None \<Rightarrow> [])
      in \<lparr> lateBufferMinutes =
             normalizeSetting (map_of data ''lateBufferMinutes'')
               (lateBufferMinutes DEFAULT_BUFFER_SETTINGS),
           earlyCheckoutBufferMinutes =
             normalizeSetting (map_of data ''earlyCheckoutBufferMinutes'')
               (earlyCheckoutBufferMinutes DEFAULT_BUFFER_SETTINGS),
           otEarlyBufferMinutes =
             normalizeSetting (map_of data ''otEarlyBufferMinutes'')
               (otEarlyBufferMinutes DEFAULT_BUFFER_SETTINGS),
           otLateBufferMinutes =
             normalizeSetting (map_of data ''otLateBufferMinutes'')
               (otLateBufferMinutes DEFAULT_BUFFER_SETTINGS) \<rparr>)"

section \<open>Replacing the session of a key\<close>

text \<open>
  Lines 260 to 306 of \<open>ScannerPage.tsx\<close> and 576 to 620 of the administrator dashboard:
  the sessions of the key are read, one delete per document read and one set of a new
  document reference go into a batch, and the batch is committed.
\<close>

definition sessionQuery ::
  "string \<Rightarrow> string \<Rightarrow> attendanceSession collection \<Rightarrow> attendanceSession collection" where
  "sessionQuery userId dateKey c =
     filter (\<lambda>d. ses_userId (snd d) = userId \<and> ses_dateKey (snd d) = dateKey) c"

definition replaceSession ::
  "string \<Rightarrow> string \<Rightarrow> string \<Rightarrow> attendanceSession \<Rightarrow> attendanceSession collection
     \<Rightarrow> attendanceSession collection" where
  "replaceSession userId dateKey sessionRef session c =
     (let sessionSnapshot = sessionQuery userId dateKey c;
          batch = map (\<lambda>d. BatchDelete (fst d)) sessionSnapshot @ [BatchSet sessionRef session]
      in batchCommit batch c)"

section \<open>The per-scan rebuild\<close>

definition isDeleted :: "attendanceLog \<Rightarrow> bool" where
  "isDeleted l = (log_isDeleted l = Some True)"

text \<open>\<open>arr.length ? arr.reduce(f) : null\<close>.\<close>

definition jsReduce :: "('a \<Rightarrow> 'a \<Rightarrow> 'a) \<Rightarrow> 'a list \<Rightarrow> 'a option" where
  "jsReduce f xs = (case xs of [] \<Rightarrow> None | x # rest \<Rightarrow> Some (foldl f x rest))"

definition endpointOfLog :: "attendanceLog \<Rightarrow> endpoint" where
  "endpointOfLog l = (log_scanTime l, log_siteId l, log_siteName l)"

definition ownerOfProfile :: "string \<Rightarrow> userProfile \<Rightarrow> sessionOwner" where
  "ownerOfProfile uid profile =
     \<lparr> own_userId = uid,
       own_userEmail = prof_email profile,
       own_userName = (case prof_name profile of None \<Rightarrow> ''User'' | Some n \<Rightarrow> n),
       own_employeeId = (case prof_employeeId profile of None \<Rightarrow> [] | Some e \<Rightarrow> e),
       own_normalRate = (case prof_normalRate profile of None \<Rightarrow> 0 | Some r \<Rightarrow> r),
       own_otRate = (case prof_otRate profile of None \<Rightarrow> 0 | Some r \<Rightarrow> r) \<rparr>"

text \<open>The query of lines 130 to 149 and the two \<open>reduce\<close> calls.\<close>

definition dayLogs :: "string \<Rightarrow> string \<Rightarrow> attendanceLog collection \<Rightarrow> attendanceLog list" where
  "dayLogs uid dateKey c =
     (let logsSnapshot =
            sort_key (log_scanTime \<circ> snd)
              (filter (\<lambda>d. log_userId (snd d) = uid \<and> log_status (snd d) = Success
                            \<and> log_dateKey (snd d) = Some dateKey) c)
      in filter (\<lambda>l. \<not> isDeleted l) (map snd logsSnapshot))"

definition rebuiltSession ::
  "string \<Rightarrow> userProfile \<Rightarrow> string \<Rightarrow> firestore \<Rightarrow> attendanceSession" where
  "rebuiltSession uid profile dateKey db =
     (let logs = dayLogs uid dateKey (db_attendance db);
          checkIns = filter (\<lambda>l. log_scanType l = Some CheckIn) logs;
          checkOuts = filter (\<lambda>l. log_scanType l = Some CheckOut) logs;
          firstCheckIn =
            jsReduce (\<lambda>prev next. if log_scanTime prev \<le> log_scanTime next then prev else next)
              checkIns;
          lastCheckOut =
            jsReduce (\<lambda>prev next. if log_scanTime prev \<ge> log_scanTime next then prev else next)
              checkOuts;
          cfg = getBufferSettings (db_settings db)
      in sessionDoc cfg (ownerOfProfile uid profile) dateKey
           (map_option endpointOfLog firstCheckIn) (map_option endpointOfLog lastCheckOut))"

text \<open>\<open>sessionRef\<close> is the reference \<open>doc(collection(db, "attendanceSessions"))\<close>
  generates.\<close>

definition rebuildSessionsForDay ::
  "string option \<Rightarrow> userProfile option \<Rightarrow> string \<Rightarrow> string \<Rightarrow> firestore \<Rightarrow> firestore" where
  "rebuildSessionsForDay user profile sessionRef dateKey db =
     (case user of
        None \<Rightarrow> db
      | Some uid \<Rightarrow>
          (case profile of
             None \<Rightarrow> db
           | Some prof \<Rightarrow>
               db\<lparr> db_attendanceSessions :=
                     replaceSession uid dateKey sessionRef (rebuiltSession uid prof dateKey db)
                       (db_attendanceSessions db) \<rparr>))"

section \<open>The administrator's range recompute\<close>

record groupedLog =
  gl_scanType :: scan_type
  gl_scanTime :: instant
  gl_userId :: string
  gl_userEmail :: string
  gl_siteId :: string
  gl_siteName :: string
  gl_dateKey :: string

text \<open>A JavaScript \<open>Map\<close> keeps its keys in the order of first insertion.\<close>

definition mapSet :: "'k \<Rightarrow> 'v \<Rightarrow> ('k \<times> 'v) list \<Rightarrow> ('k \<times> 'v) list" where
  "mapSet k v m =
     (if k \<in> fst ` set m then map (\<lambda>e. if fst e = k then (k, v) else e) m
      else m @ [(k, v)])"

definition sessionKey :: "string \<Rightarrow> string \<Rightarrow> string" where
  "sessionKey userId dateKey = userId @ ''|'' @ dateKey"

text \<open>The body of \<open>logsSnapshot.docs.forEach\<close>.\<close>

definition groupStep ::
  "attendanceLog \<Rightarrow> (string \<times> groupedLog list) list \<Rightarrow> (string \<times> groupedLog list) list" where
  "groupStep data grouped =
     (if isDeleted data then grouped
      else
        (let scanTime = log_scanTime data;
             dateKey = (case log_dateKey data of Some k \<Rightarrow> k | None \<Rightarrow> getDateKey scanTime);
             key = sessionKey (log_userId data) dateKey;
             lst = (case map_of grouped key of Some l \<Rightarrow> l | None \<Rightarrow> []);
             entry = \<lparr> gl_scanType = (case log_scanType data of Some t \<Rightarrow> t | None \<Rightarrow> CheckIn),
                       gl_scanTime = scanTime,
                       gl_userId = log_userId data,
                       gl_userEmail = log_userEmail data,
                       gl_siteId = log_siteId data,
                       gl_siteName = log_siteName data,
                       gl_dateKey = dateKey \<rparr>
         in mapSet key (lst @ [entry]) grouped))"

definition endpointOfGrouped :: "groupedLog \<Rightarrow> endpoint" where
  "endpointOfGrouped l = (gl_scanTime l, gl_siteId l, gl_siteName l)"

text \<open>What the platform raises where the model has no value to go on with: a missing
  second piece of the key makes the session query invalid, and \<open>list[0].userEmail\<close> on an
  empty list is a type error.\<close>

datatype run_error = InvalidArgument | TypeError

text \<open>The session of one entry of \<open>grouped\<close>, with the user id and date key split off the
  entry's key.\<close>

definition recomputedSession ::
  "bufferSettings \<Rightarrow> (string \<Rightarrow> userProfile option) \<Rightarrow> string \<times> groupedLog list
     \<Rightarrow> run_error + (string \<times> string \<times> attendanceSession)" where
  "recomputedSession cfg userMap entry =
     (case jsSplit CHR ''|'' [] (fst entry) of
        userId # dateKey # _ \<Rightarrow>
          (let lst = sort_key gl_scanTime (snd entry);
               checkIns = filter (\<lambda>l. gl_scanType l = CheckIn) lst;
               checkOuts = filter (\<lambda>l. gl_scanType l = CheckOut) lst;
               firstCheckIn =
                 jsReduce (\<lambda>prev next. if gl_scanTime prev \<le> gl_scanTime next then prev else next)
                   checkIns;
               lastCheckOut =
                 jsReduce (\<lambda>prev next. if gl_scanTime prev \<ge> gl_scanTime next then prev else next)
                   checkOuts;
               userItem = userMap userId;
               userName =
                 (case userItem of
                    None \<Rightarrow> ''User''
                  | Some u \<Rightarrow> (case prof_name u of None \<Rightarrow> ''User'' | Some n \<Rightarrow> n));
               userEmail =
                 (case userItem of
                    Some u \<Rightarrow> Some (prof_email u)
                  | None \<Rightarrow> (case lst of [] \<Rightarrow> None | l0 # _ \<Rightarrow> Some (gl_userEmail l0)));
               normalRate =
                 (case userItem of
                    None \<Rightarrow> 0
                  | Some u \<Rightarrow> (case prof_normalRate u of None \<Rightarrow> 0 | Some r \<Rightarrow> r));
               otRate =
                 (case userItem of
                    None \<Rightarrow> 0
                  | Some u \<Rightarrow> (case prof_otRate u of None \<Rightarrow> 0 | Some r \<Rightarrow> r));
               employeeId =
                 (case userItem of
                    None \<Rightarrow> []
                  | Some u \<Rightarrow> (case prof_employeeId u of None \<Rightarrow> [] | Some e \<Rightarrow> e))
           in case userEmail of
                None \<Rightarrow> Inl TypeError
              | Some email \<Rightarrow>
                  Inr (userId, dateKey,
                       sessionDoc cfg
                         \<lparr> own_userId = userId, own_userEmail = email, own_userName = userName,
                           own_employeeId = employeeId, own_normalRate = normalRate,
                           own_otRate = otRate \<rparr>
                         dateKey
                         (map_option endpointOfGrouped firstCheckIn)
                         (map_option endpointOfGrouped lastCheckOut)))
      | _ \<Rightarrow> Inl InvalidArgument)"

text \<open>The loop over \<open>grouped.entries()\<close>; \<open>refs n\<close> is the document reference generated
  in the iteration numbered \<open>n\<close>.\<close>

fun recomputeLoop ::
  "bufferSettings \<Rightarrow> (string \<Rightarrow> userProfile option) \<Rightarrow> (nat \<Rightarrow> string) \<Rightarrow> nat
     \<Rightarrow> (string \<times> groupedLog list) list \<Rightarrow> attendanceSession collection
     \<Rightarrow> run_error + attendanceSession collection" where
  "recomputeLoop cfg userMap refs n [] c = Inr c"
| "recomputeLoop cfg userMap refs n (entry # rest) c =
     (case recomputedSession cfg userMap entry of
        Inl e \<Rightarrow> Inl e
      | Inr (userId, dateKey, session) \<Rightarrow>
          recomputeLoop cfg userMap refs (Suc n) rest
            (replaceSession userId dateKey (refs n) session c))"

definition rangeGroups ::
  "instant \<Rightarrow> instant \<Rightarrow> attendanceLog collection \<Rightarrow> (string \<times> groupedLog list) list" where
  "rangeGroups startDate endDate c =
     (let logsSnapshot =
            sort_key (log_scanTime \<circ> snd)
              (filter (\<lambda>d. log_status (snd d) = Success \<and> log_scanTime (snd d) \<ge> startDate
                            \<and> log_scanTime (snd d) \<le> endDate) c)
      in fold groupStep (map snd logsSnapshot) [])"

definition recomputeSessionsForRange ::
  "(nat \<Rightarrow> string) \<Rightarrow> instant \<Rightarrow> instant \<Rightarrow> userProfile list \<Rightarrow> firestore
     \<Rightarrow> run_error + firestore" where
  "recomputeSessionsForRange refs startDate endDate users db =
     (let cfg = getBufferSettings (db_settings db);
          userMap = fold (\<lambda>userItem acc. acc(prof_uid userItem \<mapsto> userItem)) users Map.empty;
          grouped = rangeGroups startDate endDate (db_attendance db)
      in case recomputeLoop cfg userMap refs 0 grouped (db_attendanceSessions db) of
           Inl e \<Rightarrow> Inl e
         | Inr c \<Rightarrow> Inr (db\<lparr> db_attendanceSessions := c \<rparr>))"

section \<open>Runs among other writers\<close>

text \<open>
  Neither path reads its sessions inside a transaction: the sessions of the key are read
  by an awaited \<open>getDocs\<close>, and the batch built from what was read is committed by a later
  \<open>await\<close>.  While a run waits, other clients (another device of the same user, the
  administrator) may write to the store.  Here each awaited operation of a run takes
  effect on the store left by the one before it after the other clients' writes in
  between, a function on the store for each \<open>await\<close> of the run: the query of the logs,
  the read of the settings, and for the iteration numbered \<open>n\<close> (the per-scan rebuild has
  the one numbered 0) the query of the key's sessions and the commit.  The definitions of
  the three sections above are the case in which nobody else writes.
\<close>

datatype run_await = AwaitLogs | AwaitSettings | AwaitSessions nat | AwaitCommit nat

type_synonym other_writers = "run_await \<Rightarrow> firestore \<Rightarrow> firestore"

definition nobodyElse :: other_writers where
  "nobodyElse p db = db"

text \<open>The batch: a delete for every document of the snapshot, then the set.\<close>

definition replacementBatch ::
  "attendanceSession collection \<Rightarrow> string \<Rightarrow> attendanceSession
     \<Rightarrow> attendanceSession batch_write list" where
  "replacementBatch sessionSnapshot sessionRef session =
     map (\<lambda>d. BatchDelete (fst d)) sessionSnapshot @ [BatchSet sessionRef session]"

text \<open>Lines 260 to 306 of \<open>ScannerPage.tsx\<close> and 576 to 620 of the administrator
  dashboard again: the query sees the store as it is when the query is answered, the
  commit applies the batch to the store as it is when the batch arrives.\<close>

definition replaceSession_among ::
  "other_writers \<Rightarrow> nat \<Rightarrow> string \<Rightarrow> string \<Rightarrow> string \<Rightarrow> attendanceSession \<Rightarrow> firestore
     \<Rightarrow> firestore" where
  "replaceSession_among others n userId dateKey sessionRef session db =
     (let dbRead = others (AwaitSessions n) db;
          sessionSnapshot = sessionQuery userId dateKey (db_attendanceSessions dbRead);
          batch = replacementBatch sessionSnapshot sessionRef session;
          dbCommit = others (AwaitCommit n) dbRead
      in dbCommit\<lparr> db_attendanceSessions := batchCommit batch (db_attendanceSessions dbCommit) \<rparr>)"

text \<open>\<open>rebuildSessionsForDay\<close>: the logs are read first, the settings second, and the
  session is built from the logs of the first read and the settings of the second
  (\<open>rebuiltSession\<close> reads nothing else of the store it is given).\<close>

definition rebuildSessionsForDay_among ::
  "other_writers \<Rightarrow> string option \<Rightarrow> userProfile option \<Rightarrow> string \<Rightarrow> string \<Rightarrow> firestore
     \<Rightarrow> firestore" where
  "rebuildSessionsForDay_among others user profile sessionRef dateKey db =
     (case user of
        None \<Rightarrow> db
      | Some uid \<Rightarrow>
          (case profile of
             None \<Rightarrow> db
           | Some prof \<Rightarrow>
               (let dbLogs = others AwaitLogs db;
                    dbSettings = others AwaitSettings dbLogs;
                    session =
                      rebuiltSession uid prof dateKey
                        (dbLogs\<lparr> db_settings := db_settings dbSettings \<rparr>)
                in replaceSession_among others 0 uid dateKey sessionRef session dbSettings)))"

text \<open>\<open>recomputeSessionsForRange\<close>: the settings are read first, the logs second, and
  every iteration of the loop reads the sessions of its key and commits its batch.\<close>

fun recomputeLoop_among ::
  "other_writers \<Rightarrow> bufferSettings \<Rightarrow> (string \<Rightarrow> userProfile option) \<Rightarrow> (nat \<Rightarrow> string) \<Rightarrow> nat
     \<Rightarrow> (string \<times> groupedLog list) list \<Rightarrow> firestore \<Rightarrow> run_error + firestore" where
  "recomputeLoop_among others cfg userMap refs n [] db = Inr db"
| "recomputeLoop_among others cfg userMap refs n (entry # rest) db =
     (case recomputedSession cfg userMap entry of
        Inl e \<Rightarrow> Inl e
      | Inr (userId, dateKey, session) \<Rightarrow>
          recomputeLoop_among others cfg userMap refs (Suc n) rest
            (replaceSession_among others n userId dateKey (refs n) session db))"

definition recomputeSessionsForRange_among ::
  "other_writers \<Rightarrow> (nat \<Rightarrow> string) \<Rightarrow> instant \<Rightarrow> instant \<Rightarrow> userProfile list \<Rightarrow> firestore
     \<Rightarrow> run_error + firestore" where
  "recomputeSessionsForRange_among others refs startDate endDate users db =
     (let dbSettings = others AwaitSettings db;
          cfg = getBufferSettings (db_settings dbSettings);
          userMap = fold (\<lambda>userItem acc. acc(prof_uid userItem \<mapsto> userItem)) users Map.empty;
          dbLogs = others AwaitLogs dbSettings;
          grouped = rangeGroups startDate endDate (db_attendance dbLogs)
      in recomputeLoop_among others cfg userMap refs 0 grouped dbLogs)"

section \<open>The scan handler\<close>

subsection \<open>Distance\<close>

text \<open>\<open>Math.atan2\<close> by quadrant, and \<open>haversineDistance\<close> as written, over the reals.\<close>

definition atan2 :: "real \<Rightarrow> real \<Rightarrow> real" where
  "atan2 y x =
     (if x > 0 then arctan (y / x)
      else if x < 0 then (if y \<ge> 0 then arctan (y / x) + pi else arctan (y / x) - pi)
      else if y > 0 then pi / 2
      else if y < 0 then - pi / 2
      else 0)"

definition toRad :: "real \<Rightarrow> real" where
  "toRad v = (v * pi) / 180"

definition haversineDistance :: "real \<Rightarrow> real \<Rightarrow> real \<Rightarrow> real \<Rightarrow> real" where
  "haversineDistance lat1 lon1 lat2 lon2 =
     (let earthRadius = 6371000;
          dLat = toRad (lat2 - lat1);
          dLon = toRad (lon2 - lon1);
          a = (sin (dLat / 2))\<^sup>2 + cos (toRad lat1) * cos (toRad lat2) * (sin (dLon / 2))\<^sup>2;
          c = 2 * atan2 (sqrt a) (sqrt (1 - a))
      in earthRadius * c)"

subsection \<open>The environment of one call\<close>

text \<open>
  What a call takes from outside the program: the value a rejected promise carries at
  each \<open>await\<close>, the \<open>await\<close> during which the 15 second timer fires (if it does), the
  position the device reports, the client's clock (for \<open>getDateKey()\<close>), the server's
  clock (for \<open>serverTimestamp()\<close>) and the generated document ids.
\<close>

datatype await_point =
    AwInvalidLog | AwSiteQuery | AwNotFoundLog | AwPosition | AwOutsideLog
  | AwDailyQuery | AwAddDoc | AwRebuild | AwCatchLog

datatype err_code = NumCode int | StrCode string

text \<open>A thrown value: a string, an object with its \<open>code\<close> and \<open>message\<close> properties (if
  it has them), or anything else.\<close>

datatype js_error = ErrString string | ErrObject "err_code option" "string option" | ErrOther

datatype nav_status = NavSuccess | NavError

record scanEnv =
  env_fail :: "await_point \<Rightarrow> js_error option"
  env_timeoutDuring :: "await_point option"
  env_position :: "real \<times> real"
  env_clientNow :: instant
  env_serverTime :: instant
  env_newLogId :: string
  env_newSessionId :: string

text \<open>The store, the local \<open>cancelled\<close> and the message \<open>navigateBack\<close> was called
  with.\<close>

record scanState =
  st_db :: firestore
  st_cancelled :: bool
  st_nav :: "(string \<times> nav_status) option"

definition finish :: "string \<Rightarrow> nav_status \<Rightarrow> scanState \<Rightarrow> scanState" where
  "finish message status st =
     (if st_cancelled st then st
      else st\<lparr> st_cancelled := True, st_nav := Some (message, status) \<rparr>)"

text \<open>The timer's callback runs while an \<open>await\<close> is pending.\<close>

definition awaitAt :: "scanEnv \<Rightarrow> await_point \<Rightarrow> scanState \<Rightarrow> scanState" where
  "awaitAt env aw st =
     (if env_timeoutDuring env = Some aw
      then (if st_cancelled st then st
            else finish ''Scan timed out. Please try again.'' NavError st)
      else st)"

definition addDoc :: "string \<Rightarrow> attendanceLog \<Rightarrow> firestore \<Rightarrow> firestore" where
  "addDoc ref data db = db\<lparr> db_attendance := db_attendance db @ [(ref, data)] \<rparr>"

subsection \<open>\<open>logAttendanceFailure\<close>\<close>

definition failureLog ::
  "scanEnv \<Rightarrow> string \<Rightarrow> userProfile \<Rightarrow> string \<Rightarrow> (string \<times> siteItem) option \<Rightarrow> real option
     \<Rightarrow> (real \<times> real) option \<Rightarrow> attendanceLog" where
  "failureLog env uid profile reason locationItem distanceMeters coords =
     (let userName = (case prof_name profile of None \<Rightarrow> ''User'' | Some n \<Rightarrow> n);
          siteName = (case locationItem of None \<Rightarrow> ''Unknown'' | Some l \<Rightarrow> site_name (snd l))
      in \<lparr> log_userId = uid,
           log_userEmail = prof_email profile,
           log_userName = Some userName,
           log_siteId = (case locationItem of None \<Rightarrow> ''unknown'' | Some l \<Rightarrow> fst l),
           log_siteName = siteName,
           log_scanTime = env_serverTime env,
           log_dateKey = Some (getDateKey (env_clientNow env)),
           log_userLat = map_option fst coords,
           log_userLng = map_option snd coords,
           log_distanceMeters = distanceMeters,
           log_allowedRadiusMeters =
             map_option (\<lambda>l. site_allowedRadiusMeters (snd l)) locationItem,
           log_status = Fail,
           log_scanType = None,
           log_failReason = Some reason,
           log_isDeleted = Some False,
           log_createdBy = Some Scanner,
           log_createdAt = Some (env_serverTime env),
           log_searchPrefixes = buildSearchPrefixes [userName, prof_email profile, siteName] \<rparr>)"

text \<open>The result is the state after the call and the value thrown, if the write was
  rejected.\<close>

definition logAttendanceFailure ::
  "scanEnv \<Rightarrow> await_point \<Rightarrow> string option \<Rightarrow> userProfile option \<Rightarrow> string
     \<Rightarrow> (string \<times> siteItem) option \<Rightarrow> real option \<Rightarrow> (real \<times> real) option \<Rightarrow> scanState
     \<Rightarrow> scanState \<times> js_error option" where
  "logAttendanceFailure env aw user profile reason locationItem distanceMeters coords st =
     (case user of
        None \<Rightarrow> (st, None)
      | Some uid \<Rightarrow>
          (case profile of
             None \<Rightarrow> (st, None)
           | Some prof \<Rightarrow>
               (let st1 = awaitAt env aw st
                in case env_fail env aw of
                     Some err \<Rightarrow> (st1, Some err)
                   | None \<Rightarrow>
                       (st1\<lparr> st_db :=
                               addDoc (env_newLogId env)
                                 (failureLog env uid prof reason locationItem distanceMeters coords)
                                 (st_db st1) \<rparr>,
                        None))))"

subsection \<open>The scan kind\<close>

text \<open>Lines 390 to 406: the ten most recent successful logs of the user at the site on
  the day, the first of them that is not deleted, and the toggle.\<close>

definition dailySnapshot ::
  "string \<Rightarrow> string \<Rightarrow> string \<Rightarrow> attendanceLog collection \<Rightarrow> attendanceLog list" where
  "dailySnapshot uid siteId dateKey c =
     map snd
       (take 10
          (rev (sort_key (log_scanTime \<circ> snd)
                  (filter (\<lambda>d. log_userId (snd d) = uid \<and> log_siteId (snd d) = siteId
                                \<and> log_status (snd d) = Success
                                \<and> log_dateKey (snd d) = Some dateKey) c))))"

definition nextScanType :: "attendanceLog list \<Rightarrow> scan_type" where
  "nextScanType snapshot =
     (let lastLog = find (\<lambda>data. \<not> isDeleted data) snapshot;
          lastType =
            (case lastLog of
               None \<Rightarrow> None
             | Some l \<Rightarrow> Some (case log_scanType l of None \<Rightarrow> CheckIn | Some t \<Rightarrow> t))
      in if lastType = None \<or> lastType = Some CheckOut then CheckIn else CheckOut)"

definition successLog ::
  "scanEnv \<Rightarrow> string \<Rightarrow> userProfile \<Rightarrow> string \<times> siteItem \<Rightarrow> string \<Rightarrow> real \<times> real \<Rightarrow> real
     \<Rightarrow> scan_type \<Rightarrow> attendanceLog" where
  "successLog env uid profile locationItem dateKey pos distance scanType =
     (let userName = (case prof_name profile of None \<Rightarrow> ''User'' | Some n \<Rightarrow> n)
      in \<lparr> log_userId = uid,
           log_userEmail = prof_email profile,
           log_userName = Some userName,
           log_siteId = fst locationItem,
           log_siteName = site_name (snd locationItem),
           log_scanTime = env_serverTime env,
           log_dateKey = Some dateKey,
           log_userLat = Some (fst pos),
           log_userLng = Some (snd pos),
           log_distanceMeters = Some distance,
           log_allowedRadiusMeters = Some (site_allowedRadiusMeters (snd locationItem)),
           log_status = Success,
           log_scanType = Some scanType,
           log_failReason = None,
           log_isDeleted = Some False,
           log_createdBy = Some Scanner,
           log_createdAt = Some (env_serverTime env),
           log_searchPrefixes =
             buildSearchPrefixes [userName, prof_email profile, site_name (snd locationItem)] \<rparr>)"

subsection \<open>\<open>handleScan\<close>\<close>

text \<open>The message of the \<open>catch\<close> block.\<close>

definition errorMessage :: "js_error \<Rightarrow> string" where
  "errorMessage err =
     (let message0 = ''Unable to complete scan. Please try again.''
      in case err of
           ErrString s \<Rightarrow> s
         | ErrOther \<Rightarrow> message0
         | ErrObject code maybeMessage \<Rightarrow>
             (let message1 =
                    (if code = Some (NumCode 1) then ''GPS permission denied.''
                     else if code = Some (NumCode 2) then ''GPS position unavailable.''
                     else if code = Some (NumCode 3) then ''GPS request timed out.''
                     else message0);
                  message2 =
                    (case maybeMessage of
                       None \<Rightarrow> message1
                     | Some m \<Rightarrow> if m \<noteq> [] then m else message1)
              in if code = Some (StrCode ''permission-denied'')
                 then ''Permission denied. Please contact admin.''
                 else if code = Some (StrCode ''failed-precondition'')
                 then ''Missing Firestore index. Please contact admin.''
                 else message2))"

text \<open>
  The \<open>try\<close> block after the two guards.  The result is the state, \<open>lastLocation\<close> and
  the value thrown, if one was.
\<close>

definition tryBlock ::
  "scanEnv \<Rightarrow> string \<Rightarrow> userProfile \<Rightarrow> string \<Rightarrow> scanState
     \<Rightarrow> scanState \<times> (string \<times> siteItem) option \<times> js_error option" where
  "tryBlock env uid prof rawValue st0 =
     (let normalizedName = normalizeSiteName rawValue
      in if normalizedName = [] then
           (case logAttendanceFailure env AwInvalidLog (Some uid) (Some prof)
                   ''Invalid QR code.'' None None None st0 of
              (st1, Some err) \<Rightarrow> (st1, None, Some err)
            | (st1, None) \<Rightarrow> (finish ''Invalid QR code.'' NavError st1, None, None))
         else
           (let st1 = awaitAt env AwSiteQuery st0
            in case env_fail env AwSiteQuery of
                 Some err \<Rightarrow> (st1, None, Some err)
               | None \<Rightarrow>
                   if st_cancelled st1 then (st1, None, None)
                   else
                     (case filter (\<lambda>d. site_nameNormalized (snd d) = normalizedName)
                             (db_sites (st_db st1)) of
                        [] \<Rightarrow>
                          (case logAttendanceFailure env AwNotFoundLog (Some uid) (Some prof)
                                  ''Site not found.'' None None None st1 of
                             (st2, Some err) \<Rightarrow> (st2, None, Some err)
                           | (st2, None) \<Rightarrow> (finish ''Site not found.'' NavError st2, None, None))
                      | locationItem # _ \<Rightarrow>
                          (let lastLocation = Some locationItem;
                               st2 = awaitAt env AwPosition st1
                           in case env_fail env AwPosition of
                                Some err \<Rightarrow> (st2, lastLocation, Some err)
                              | None \<Rightarrow>
                                  if st_cancelled st2 then (st2, lastLocation, None)
                                  else
                                    (let pos = env_position env;
                                         distance =
                                           haversineDistance (fst pos) (snd pos)
                                             (site_lat (snd locationItem))
                                             (site_lng (snd locationItem))
                                     in if distance > site_allowedRadiusMeters (snd locationItem)
                                        then
                                          (case logAttendanceFailure env AwOutsideLog (Some uid)
                                                  (Some prof) ''Outside allowed radius.''
                                                  (Some locationItem) (Some distance) (Some pos)
                                                  st2 of
                                             (st3, Some err) \<Rightarrow> (st3, lastLocation, Some err)
                                           | (st3, None) \<Rightarrow>
                                               (finish ''You are outside the allowed radius.''
                                                  NavError st3,
                                                lastLocation, None))
                                        else
                                          (let dateKey = getDateKey (env_clientNow env);
                                               st3 = awaitAt env AwDailyQuery st2
                                           in case env_fail env AwDailyQuery of
                                                Some err \<Rightarrow> (st3, lastLocation, Some err)
                                              | None \<Rightarrow>
                                                  if st_cancelled st3
                                                  then (st3, lastLocation, None)
                                                  else
                                                    (let scanType =
                                                           nextScanType
                                                             (dailySnapshot uid (fst locationItem)
                                                                dateKey
                                                                (db_attendance (st_db st3)));
                                                         st4 = awaitAt env AwAddDoc st3
                                                     in case env_fail env AwAddDoc of
                                                          Some err \<Rightarrow> (st4, lastLocation, Some err)
                                                        | None \<Rightarrow>
                                                            (let st5 =
                                                                   st4\<lparr> st_db :=
                                                                     addDoc (env_newLogId env)
                                                                       (successLog env uid prof
                                                                          locationItem dateKey pos
                                                                          distance scanType)
                                                                       (st_db st4) \<rparr>;
                                                                 st6 = awaitAt env AwRebuild st5;
                                                                 st7 =
                                                                   (case env_fail env AwRebuild of
                                                                      Some err \<Rightarrow> st6
                                                                    | None \<Rightarrow>
                                                                        st6\<lparr> st_db :=
                                                                          rebuildSessionsForDay
                                                                            (Some uid) (Some prof)
                                                                            (env_newSessionId env)
                                                                            dateKey (st_db st6) \<rparr>)
                                                             in (finish
                                                                   (if scanType = CheckIn
                                                                    then ''Check-in recorded.''
                                                                    else ''Check-out recorded.'')
                                                                   NavSuccess st7,
                                                                 lastLocation, None)))))))))"

definition catchBlock ::
  "scanEnv \<Rightarrow> string \<Rightarrow> userProfile \<Rightarrow> (string \<times> siteItem) option \<Rightarrow> js_error \<Rightarrow> scanState
     \<Rightarrow> scanState" where
  "catchBlock env uid prof lastLocation err st =
     (if st_cancelled st then st
      else
        (let message = errorMessage err;
             st1 = fst (logAttendanceFailure env AwCatchLog (Some uid) (Some prof) message
                          lastLocation None None st)
         in finish message NavError st1))"

text \<open>The result is the store, \<open>processingRef.current\<close> and the navigation made.\<close>

definition handleScan ::
  "scanEnv \<Rightarrow> string option \<Rightarrow> userProfile option \<Rightarrow> bool \<Rightarrow> string \<Rightarrow> firestore
     \<Rightarrow> firestore \<times> bool \<times> (string \<times> nav_status) option" where
  "handleScan env user profile processing rawValue db =
     (case user of
        None \<Rightarrow> (db, processing, None)
      | Some uid \<Rightarrow>
          (case profile of
             None \<Rightarrow> (db, processing, None)
           | Some prof \<Rightarrow>
               if processing then (db, processing, None)
               else
                 (let st0 = \<lparr> st_db = db, st_cancelled = False, st_nav = None \<rparr>;
                      st = (case tryBlock env uid prof rawValue st0 of
                              (st1, lastLocation, None) \<Rightarrow> st1
                            | (st1, lastLocation, Some err) \<Rightarrow>
                                catchBlock env uid prof lastLocation err st1)
                  in (st_db st, True, st_nav st))))"

section \<open>The specification's words\<close>

text \<open>\<open>y\<close> is \<open>x\<close> rounded to two decimal places: \<open>y\<close> is a whole number of hundredths, at
  most half a hundredth from \<open>x\<close>.\<close>

definition roundedTo2 :: "real \<Rightarrow> real \<Rightarrow> bool" where
  "roundedTo2 x y = (real_of_int \<lfloor>y * 100\<rfloor> = y * 100 \<and> \<bar>y - x\<bar> \<le> 1 / 200)"

text \<open>Steps 4 and 5 of the aggregator before rounding: the hours between the two end
  points, not below 0, plus the padding up to 17:00 for a checkout inside the
  early-checkout window; nothing when an end point is missing.\<close>

definition spec_totalHours :: "real \<Rightarrow> instant option \<Rightarrow> instant option \<Rightarrow> real option" where
  "spec_totalHours earlyBuf checkIn checkOut =
     (case (checkIn, checkOut) of
        (Some ci, Some co) \<Rightarrow>
          Some (max 0 (real_of_int (co - ci) / 3600000)
                + (if 17 * 60 - earlyBuf \<le> real_of_int (getTimeMinutes co)
                      \<and> getTimeMinutes co \<le> 17 * 60
                   then (17 * 60 - real_of_int (getTimeMinutes co)) / 60 else 0))
      | _ \<Rightarrow> None)"

text \<open>Step 8: a checkout inside the overtime window counts as 22:00.\<close>

definition spec_effectiveOtCheckout :: "real \<Rightarrow> real \<Rightarrow> int \<Rightarrow> int" where
  "spec_effectiveOtCheckout otEarly otLate m =
     (if 22 * 60 - otEarly \<le> real_of_int m \<and> real_of_int m \<le> 22 * 60 + otLate
      then 22 * 60 else m)"

text \<open>Step 9: the overtime hours from the total hours and the effective checkout, each
  \<open>None\<close> when unknown.\<close>

definition spec_otHours :: "real option \<Rightarrow> int option \<Rightarrow> real" where
  "spec_otHours totalH effective =
     (case (totalH, effective) of
        (Some t, Some e) \<Rightarrow>
          if t \<ge> 9 then (if e \<ge> 22 * 60 then 4 else if e \<ge> 19 * 60 then 2 else 0) else 0
      | _ \<Rightarrow> 0)"

text \<open>A non-negative whole number of minutes.\<close>

definition isMinutes :: "real \<Rightarrow> bool" where
  "isMinutes x = (0 \<le> x \<and> real_of_int \<lfloor>x\<rfloor> = x)"

text \<open>The value the \<open>settings/global\<close> document stores under a field name, \<open>None\<close> when the
  document or the field is missing.\<close>

definition storedField :: "(string \<times> fs_value) list option \<Rightarrow> string \<Rightarrow> fs_value option" where
  "storedField snapshot name = (case snapshot of None \<Rightarrow> None | Some kvs \<Rightarrow> map_of kvs name)"

text \<open>The ids of the documents of a collection.\<close>

definition docIds :: "'a collection \<Rightarrow> string set" where
  "docIds c = fst ` set c"

text \<open>The key of a session document.\<close>

definition sessionDocKey :: "string \<times> attendanceSession \<Rightarrow> string \<times> string" where
  "sessionDocKey x = (ses_userId (snd x), ses_dateKey (snd x))"

text \<open>The date key the range recompute files a log under: the stored one, or the one of its
  scan time.\<close>

definition logDateKey :: "attendanceLog \<Rightarrow> string" where
  "logDateKey l = (case log_dateKey l of Some k \<Rightarrow> k | None \<Rightarrow> getDateKey (log_scanTime l))"

text \<open>The key of a log: user id and date key.\<close>

definition keyPair :: "attendanceLog \<Rightarrow> string \<times> string" where
  "keyPair l = (log_userId l, logDateKey l)"

text \<open>The logs a range recompute groups: successful, inside the range, not deleted.\<close>

definition rangeLogs :: "instant \<Rightarrow> instant \<Rightarrow> attendanceLog collection \<Rightarrow> attendanceLog set" where
  "rangeLogs startDate endDate c =
     {l. \<exists>ref. (ref, l) \<in> set c \<and> log_status l = Success \<and> startDate \<le> log_scanTime l
           \<and> log_scanTime l \<le> endDate \<and> \<not> isDeleted l}"

text \<open>The string has no \<open>|\<close>, the separator of the keys of \<open>grouped\<close>.\<close>

definition noBar :: "string \<Rightarrow> bool" where
  "noBar s = (CHR ''|'' \<notin> set s)"

text \<open>No user id and no date key of a grouped log contains the separator.\<close>

definition wellFormedKeys :: "instant \<Rightarrow> instant \<Rightarrow> attendanceLog collection \<Rightarrow> bool" where
  "wellFormedKeys startDate endDate c =
     (\<forall>l\<in>rangeLogs startDate endDate c. noBar (log_userId l) \<and> noBar (logDateKey l))"

text \<open>The sessions of the key that are in the store when the batch commits and were not
  in the snapshot the run had read: those other writers added in between.\<close>

definition unreadSessions ::
  "string \<Rightarrow> string \<Rightarrow> attendanceSession collection \<Rightarrow> attendanceSession collection
     \<Rightarrow> attendanceSession collection" where
  "unreadSessions userId dateKey cRead cCommit =
     filter (\<lambda>d. fst d \<notin> docIds (sessionQuery userId dateKey cRead))
       (sessionQuery userId dateKey cCommit)"

text \<open>The store a per-scan rebuild reads the key's sessions from, and the store its batch
  is applied to.\<close>

definition rebuildReadStore :: "other_writers \<Rightarrow> firestore \<Rightarrow> firestore" where
  "rebuildReadStore others db = others (AwaitSessions 0) (others AwaitSettings (others AwaitLogs db))"

definition rebuildCommitStore :: "other_writers \<Rightarrow> firestore \<Rightarrow> firestore" where
  "rebuildCommitStore others db = others (AwaitCommit 0) (rebuildReadStore others db)"

text \<open>The store a range recompute reads the logs from.\<close>

definition rangeLogsStore :: "other_writers \<Rightarrow> firestore \<Rightarrow> firestore" where
  "rangeLogsStore others db = others AwaitLogs (others AwaitSettings db)"

text \<open>The other writers leave the session collection as it is.\<close>

definition quietOnSessions :: "other_writers \<Rightarrow> bool" where
  "quietOnSessions others = (\<forall>p db. db_attendanceSessions (others p db) = db_attendanceSessions db)"

text \<open>All successful logs of the user at the site on the day, the most recent first.\<close>

definition spec_recentLogs ::
  "string \<Rightarrow> string \<Rightarrow> string \<Rightarrow> attendanceLog collection \<Rightarrow> attendanceLog list" where
  "spec_recentLogs uid siteId dateKey c =
     map snd
       (rev (sort_key (log_scanTime \<circ> snd)
               (filter (\<lambda>d. log_userId (snd d) = uid \<and> log_siteId (snd d) = siteId
                             \<and> log_status (snd d) = Success
                             \<and> log_dateKey (snd d) = Some dateKey) c)))"

text \<open>Step 6 of the verifier: check-in when there is no log that is not deleted or the
  most recent one is a check-out, check-out otherwise.\<close>

definition spec_scanKind :: "attendanceLog list \<Rightarrow> scan_type" where
  "spec_scanKind recent =
     (case find (\<lambda>l. \<not> isDeleted l) recent of
        None \<Rightarrow> CheckIn
      | Some l \<Rightarrow> if log_scanType l = Some CheckOut then CheckIn else CheckOut)"

text \<open>The site the lookup returns: the first document with the normalised name.\<close>

definition lookupSite :: "string \<Rightarrow> firestore \<Rightarrow> (string \<times> siteItem) option" where
  "lookupSite rawValue db =
     (case filter (\<lambda>d. site_nameNormalized (snd d) = normalizeSiteName rawValue) (db_sites db) of
        [] \<Rightarrow> None
      | locationItem # _ \<Rightarrow> Some locationItem)"

text \<open>The distance the handler computes between the reported position and a site.\<close>

definition measuredDistance :: "scanEnv \<Rightarrow> string \<times> siteItem \<Rightarrow> real" where
  "measuredDistance env locationItem =
     haversineDistance (fst (env_position env)) (snd (env_position env))
       (site_lat (snd locationItem)) (site_lng (snd locationItem))"

text \<open>The attempt passes token normalisation, site lookup, geolocation and the geofence
  check, and no read or write on the way is rejected.\<close>

definition scanPasses :: "scanEnv \<Rightarrow> string \<Rightarrow> firestore \<Rightarrow> bool" where
  "scanPasses env rawValue db =
     (normalizeSiteName rawValue \<noteq> []
      \<and> env_fail env AwSiteQuery = None
      \<and> (case lookupSite rawValue db of
            None \<Rightarrow> False
          | Some locationItem \<Rightarrow>
              env_fail env AwPosition = None
              \<and> \<not> measuredDistance env locationItem > site_allowedRadiusMeters (snd locationItem)
              \<and> env_fail env AwDailyQuery = None
              \<and> env_fail env AwAddDoc = None))"

text \<open>The geofence check rejects the attempt: the site was found, the position was
  acquired and the distance exceeds the allowed radius.\<close>

definition outsideRadius :: "scanEnv \<Rightarrow> string \<Rightarrow> firestore \<Rightarrow> bool" where
  "outsideRadius env rawValue db =
     (normalizeSiteName rawValue \<noteq> []
      \<and> env_fail env AwSiteQuery = None
      \<and> (case lookupSite rawValue db of
            None \<Rightarrow> False
          | Some locationItem \<Rightarrow>
              env_fail env AwPosition = None
              \<and> measuredDistance env locationItem > site_allowedRadiusMeters (snd locationItem)))"

text \<open>The site the attempt has identified when it stops: the one the lookup returned,
  if the lookup was reached and not rejected.\<close>

definition knownSite :: "scanEnv \<Rightarrow> string \<Rightarrow> firestore \<Rightarrow> (string \<times> siteItem) option" where
  "knownSite env rawValue db =
     (if normalizeSiteName rawValue \<noteq> [] \<and> env_fail env AwSiteQuery = None
      then lookupSite rawValue db else None)"

section \<open>Notions for the proofs\<close>

text \<open>The key a built session is stored under.\<close>

definition keyOf :: "string \<times> string \<times> attendanceSession \<Rightarrow> string \<times> string" where
  "keyOf t = (fst t, fst (snd t))"

text \<open>Every built session carries the key it is stored under.\<close>

definition keyed :: "(string \<times> string \<times> attendanceSession) list \<Rightarrow> bool" where
  "keyed ts = (\<forall>t\<in>set ts. ses_userId (snd (snd t)) = fst t \<and> ses_dateKey (snd (snd t)) = fst (snd t))"

text \<open>Document ids are distinct and no reference generated from iteration \<open>n\<close> on is in
  use.\<close>

definition freshFrom :: "(nat \<Rightarrow> string) \<Rightarrow> nat \<Rightarrow> 'a collection \<Rightarrow> bool" where
  "freshFrom refs n c = (distinct (map fst c) \<and> (\<forall>m\<ge>n. refs m \<notin> docIds c))"

text \<open>The effect of the loop on the session store, given the sessions it builds.\<close>

fun replaceAll ::
  "(nat \<Rightarrow> string) \<Rightarrow> nat \<Rightarrow> (string \<times> string \<times> attendanceSession) list
     \<Rightarrow> attendanceSession collection \<Rightarrow> attendanceSession collection" where
  "replaceAll refs n [] c = c"
| "replaceAll refs n ((userId, dateKey, session) # rest) c =
     replaceAll refs (Suc n) rest (replaceSession userId dateKey (refs n) session c)"

text \<open>The documents a run of the loop adds, in the order of the loop.\<close>

definition newDocs ::
  "(nat \<Rightarrow> string) \<Rightarrow> nat \<Rightarrow> (string \<times> string \<times> attendanceSession) list
     \<Rightarrow> attendanceSession collection" where
  "newDocs refs n ts = map (\<lambda>i. (refs (n + i), snd (snd (ts ! i)))) [0 ..< length ts]"

text \<open>The key of \<open>grouped\<close> a log goes to.\<close>

definition logKey :: "attendanceLog \<Rightarrow> string" where
  "logKey l = sessionKey (log_userId l) (logDateKey l)"

text \<open>The sessions built for the entries of \<open>grouped\<close>, in their order.\<close>

definition rangeSessions ::
  "bufferSettings \<Rightarrow> (string \<Rightarrow> userProfile option) \<Rightarrow> (string \<times> groupedLog list) list
     \<Rightarrow> (string \<times> string \<times> attendanceSession) list" where
  "rangeSessions cfg userMap grouped = map (\<lambda>e. projr (recomputedSession cfg userMap e)) grouped"

text \<open>The sessions a range recompute writes, from the store it reads.\<close>

definition rangeRun ::
  "instant \<Rightarrow> instant \<Rightarrow> userProfile list \<Rightarrow> firestore
     \<Rightarrow> (string \<times> string \<times> attendanceSession) list" where
  "rangeRun startDate endDate users db =
     rangeSessions (getBufferSettings (db_settings db))
       (fold (\<lambda>userItem acc. acc(prof_uid userItem \<mapsto> userItem)) users Map.empty)
       (rangeGroups startDate endDate (db_attendance db))"

text \<open>The entry \<open>groupStep\<close> makes of a log.\<close>

definition toGrouped :: "attendanceLog \<Rightarrow> groupedLog" where
  "toGrouped l =
     \<lparr> gl_scanType = (case log_scanType l of Some t \<Rightarrow> t | None \<Rightarrow> CheckIn),
       gl_scanTime = log_scanTime l,
       gl_userId = log_userId l,
       gl_userEmail = log_userEmail l,
       gl_siteId = log_siteId l,
       gl_siteName = log_siteName l,
       gl_dateKey = logDateKey l \<rparr>"

text \<open>The two queries select the same logs for the key: a log that is not deleted is a
  successful log of the user with the stored date key exactly when it is a successful
  log in the range that goes to the key.\<close>

definition sameEvents ::
  "string \<Rightarrow> string \<Rightarrow> instant \<Rightarrow> instant \<Rightarrow> attendanceLog collection \<Rightarrow> bool" where
  "sameEvents uid dk startDate endDate c =
     (\<forall>d\<in>set c. \<not> isDeleted (snd d) \<longrightarrow>
        (log_userId (snd d) = uid \<and> log_status (snd d) = Success
           \<and> log_dateKey (snd d) = Some dk)
        = (log_status (snd d) = Success \<and> startDate \<le> log_scanTime (snd d)
           \<and> log_scanTime (snd d) \<le> endDate \<and> logKey (snd d) = sessionKey uid dk))"

section \<open>Example inputs\<close>

text \<open>Midnight of 1 March 2024 in Kuala Lumpur, and a time of that day.\<close>

definition ex_midnight :: instant where
  "ex_midnight = 1709222400000"

definition ex_at :: "int \<Rightarrow> int \<Rightarrow> instant" where
  "ex_at h m = ex_midnight + (h * 60 + m) * 60000"

text \<open>The owner \<open>ownerOfProfile\<close> gives for the example user, with the rates as parameters.\<close>

definition ex_owner :: "real \<Rightarrow> real \<Rightarrow> sessionOwner" where
  "ex_owner normalRate otRate =
     \<lparr> own_userId = ''u1'', own_userEmail = ''ali@ttl.my'', own_userName = ''Ali'',
       own_employeeId = ''E1'', own_normalRate = normalRate, own_otRate = otRate \<rparr>"

text \<open>A user, two of their logs and a stale session of theirs.\<close>

definition ex_profile :: userProfile where
  "ex_profile =
     \<lparr> prof_uid = ''u1'', prof_email = ''ali@ttl.my'', prof_name = Some ''Ali'',
       prof_employeeId = Some ''E1'', prof_normalRate = Some 10, prof_otRate = Some 15 \<rparr>"

definition ex_log :: "instant \<Rightarrow> scan_type option \<Rightarrow> bool \<Rightarrow> attendanceLog" where
  "ex_log t kind deleted =
     \<lparr> log_userId = ''u1'', log_userEmail = ''ali@ttl.my'', log_userName = Some ''Ali'',
       log_siteId = ''site1'', log_siteName = ''Site 1'', log_scanTime = t,
       log_dateKey = Some ''2024-03-01'', log_userLat = Some 3, log_userLng = Some 101,
       log_distanceMeters = Some 0, log_allowedRadiusMeters = Some 100, log_status = Success,
       log_scanType = kind, log_failReason = None, log_isDeleted = Some deleted,
       log_createdBy = Some Scanner, log_createdAt = Some t, log_searchPrefixes = [] \<rparr>"

definition ex_stale :: "string \<Rightarrow> attendanceSession" where
  "ex_stale dateKey = sessionDoc DEFAULT_BUFFER_SETTINGS (ex_owner 10 15) dateKey None None"

text \<open>A store whose key (u1, 2024-03-01) has two sessions already.\<close>

definition ex_db :: firestore where
  "ex_db =
     \<lparr> db_attendance =
         [(''a1'', ex_log (ex_at 7 55) (Some CheckIn) False),
          (''a2'', ex_log (ex_at 17 3) (Some CheckOut) False)],
       db_attendanceSessions =
         [(''s1'', ex_stale ''2024-03-01''), (''s2'', ex_stale ''2024-03-01''),
          (''s3'', ex_stale ''2024-02-29'')],
       db_sites = [],
       db_settings = None \<rparr>"

text \<open>Two supplies of document references, different from each other and from the ids in
  use.\<close>

definition ex_refs :: "nat \<Rightarrow> string" where
  "ex_refs n = replicate (Suc n) CHR ''n''"

definition ex_refs2 :: "nat \<Rightarrow> string" where
  "ex_refs2 n = replicate (Suc n) CHR ''m''"

text \<open>Another device of the same user: its rebuild for the same day runs from its read
  to its commit while this run waits for its own commit.\<close>

definition ex_other_scan :: other_writers where
  "ex_other_scan p db =
     (if p = AwaitCommit 0
      then rebuildSessionsForDay (Some ''u1'') (Some ex_profile) ''m'' ''2024-03-01'' db
      else db)"

text \<open>A store whose only log is a successful scan without scan type.\<close>

definition ex_untyped_db :: firestore where
  "ex_untyped_db =
     \<lparr> db_attendance = [(''a1'', ex_log (ex_at 7 55) None False)],
       db_attendanceSessions = [],
       db_sites = [],
       db_settings = None \<rparr>"

text \<open>A site on the Equator and a call from its position at 18:00.\<close>

definition ex_site :: siteItem where
  "ex_site =
     \<lparr> site_name = ''Site 1'', site_nameNormalized = ''site 1'', site_lat = 0, site_lng = 101,
       site_allowedRadiusMeters = 100 \<rparr>"

definition ex_env :: scanEnv where
  "ex_env =
     \<lparr> env_fail = (\<lambda>aw. None), env_timeoutDuring = None, env_position = (0, 101),
       env_clientNow = ex_at 18 0, env_serverTime = ex_at 18 0, env_newLogId = ''a3'',
       env_newSessionId = ''n'' \<rparr>"

text \<open>A day at one site with a check-in at 07:55 and a check-out at 17:03.\<close>

definition ex_day_db :: firestore where
  "ex_day_db =
     \<lparr> db_attendance =
         [(''a1'', ex_log (ex_at 7 55) (Some CheckIn) False),
          (''a2'', ex_log (ex_at 17 3) (Some CheckOut) False)],
       db_attendanceSessions = [],
       db_sites = [(''site1'', ex_site)],
       db_settings = None \<rparr>"

text \<open>A day with a check-in at 08:00 that is not deleted, followed by ten check-outs,
  from 09:00 to 09:09, all marked deleted.\<close>

definition ex_deleted_db :: firestore where
  "ex_deleted_db =
     \<lparr> db_attendance =
         (''a0'', ex_log (ex_at 8 0) (Some CheckIn) False)
         # map (\<lambda>i. (replicate (Suc i) CHR ''d'', ex_log (ex_at 9 (int i)) (Some CheckOut) True))
             [0 ..< 10],
       db_attendanceSessions = [],
       db_sites = [(''site1'', ex_site)],
       db_settings = None \<rparr>"

text \<open>The same call from the other side of the Equator, and a call during which the
  timer fires while the position is awaited.\<close>

definition ex_far_env :: scanEnv where
  "ex_far_env = ex_env\<lparr> env_position := (0, - 79) \<rparr>"

definition ex_slow_env :: scanEnv where
  "ex_slow_env = ex_env\<lparr> env_timeoutDuring := Some AwPosition \<rparr>"

section \<open>Properties of the aggregation\<close>

subsection \<open>Rounding\<close>

lemma half_up_close:
  fixes z :: real
  shows "\<bar>real_of_int \<lfloor>z + 1 / 2\<rfloor> / 100 - z / 100\<bar> \<le> 1 / 200"
proof -
  have "real_of_int \<lfloor>z + 1 / 2\<rfloor> \<le> z + 1 / 2" "z + 1 / 2 < real_of_int \<lfloor>z + 1 / 2\<rfloor> + 1"
    by linarith+
  then show ?thesis by linarith
qed

lemma toFixed2_rounds: "roundedTo2 x (toFixed2 x)"
proof (cases "x < 0")
  case False
  have "\<bar>real_of_int \<lfloor>x * 100 + 1 / 2\<rfloor> / 100 - x\<bar> \<le> 1 / 200"
    using half_up_close [of "x * 100"] by simp
  then show ?thesis using False by (simp add: roundedTo2_def toFixed2_def)
next
  case True
  have "\<bar>real_of_int \<lfloor>- x * 100 + 1 / 2\<rfloor> / 100 - (- x)\<bar> \<le> 1 / 200"
    using half_up_close [of "- x * 100"] by simp
  then have "\<bar>- (real_of_int \<lfloor>- x * 100 + 1 / 2\<rfloor> / 100) - x\<bar> \<le> 1 / 200"
    by linarith
  moreover have "real_of_int \<lfloor>- real_of_int \<lfloor>- x * 100 + 1 / 2\<rfloor>\<rfloor> = - real_of_int \<lfloor>- x * 100 + 1 / 2\<rfloor>"
    by (simp flip: of_int_minus)
  ultimately show ?thesis using True by (simp add: roundedTo2_def toFixed2_def)
qed

lemma toFixed2_9: "toFixed2 9 = 9" by (simp add: toFixed2_def)

lemma toFixed2_cents:
  assumes "real_of_int \<lfloor>x * 100\<rfloor> = x * 100"
  shows "toFixed2 x = x"
proof -
  obtain k :: int where k: "x * 100 = real_of_int k" using assms by metis
  have x: "x = real_of_int k / 100" using k by simp
  have up: "\<lfloor>real_of_int k + 1 / 2\<rfloor> = k" by linarith
  have down: "\<lfloor>1 / 2 - real_of_int k\<rfloor> = - k" by linarith
  have neg: "real_of_int k / 100 < 0 \<longleftrightarrow> k < 0" by simp
  have "toFixed2 (real_of_int k / 100) = real_of_int k / 100"
    unfolding toFixed2_def neg by (simp add: up down)
  then show ?thesis by (simp add: x)
qed

subsection \<open>The fields of the session document\<close>

lemma ses_totalHours_sessionDoc:
  "ses_totalHours (sessionDoc cfg owner dk fci lco) =
     totalHoursRounded
       (totalHoursAdjusted (totalHoursRaw (map_option fst fci) (map_option fst lco))
          (map_option getTimeMinutes (map_option fst lco)) (earlyCheckoutBufferMinutes cfg))"
  by (simp add: sessionDoc_def Let_def)

lemma ses_abnormalReasons_sessionDoc:
  "ses_abnormalReasons (sessionDoc cfg owner dk fci lco) =
     abnormalReasons (map_option fst fci) (map_option fst lco)
       (ses_totalHours (sessionDoc cfg owner dk fci lco))
       (map_option getTimeMinutes (map_option fst lco)) (otLateBufferMinutes cfg)"
  by (simp add: sessionDoc_def Let_def)

lemma ses_isAbnormal_sessionDoc:
  "ses_isAbnormal (sessionDoc cfg owner dk fci lco) =
     (ses_abnormalReasons (sessionDoc cfg owner dk fci lco) \<noteq> [])"
  by (simp add: sessionDoc_def Let_def)

lemma ses_normalHours_sessionDoc:
  "ses_normalHours (sessionDoc cfg owner dk fci lco) =
     normalHours (ses_isAbnormal (sessionDoc cfg owner dk fci lco))
       (ses_totalHours (sessionDoc cfg owner dk fci lco))"
  by (simp add: sessionDoc_def Let_def)

lemma ses_otHours_sessionDoc:
  "ses_otHours (sessionDoc cfg owner dk fci lco) =
     otHoursRounded (ses_isAbnormal (sessionDoc cfg owner dk fci lco))
       (otHours (ses_totalHours (sessionDoc cfg owner dk fci lco))
          (effectiveOtCheckoutMinutes (map_option getTimeMinutes (map_option fst lco))
             (otEarlyBufferMinutes cfg) (otLateBufferMinutes cfg)))"
  by (simp add: sessionDoc_def Let_def)

lemma ses_amountRM_sessionDoc:
  "ses_amountRM (sessionDoc cfg owner dk fci lco) =
     amountRM (ses_isAbnormal (sessionDoc cfg owner dk fci lco))
       (ses_normalHours (sessionDoc cfg owner dk fci lco))
       (ses_otHours (sessionDoc cfg owner dk fci lco))
       (own_normalRate owner) (own_otRate owner)"
  by (simp add: sessionDoc_def Let_def)

lemma totalHours_known_iff:
  "ses_totalHours (sessionDoc cfg owner dk fci lco) = None \<longleftrightarrow> fci = None \<or> lco = None"
  by (simp add: ses_totalHours_sessionDoc totalHoursRounded_def totalHoursAdjusted_def
      totalHoursRaw_def split: option.splits)

lemma abnormalReasons_set:
  "set (abnormalReasons ci co rounded com otLate) =
     (if ci = None then {''Missing check-in''} else {})
     \<union> (if co = None then {''Missing check-out''} else {})
     \<union> (case rounded of None \<Rightarrow> {} | Some t \<Rightarrow> if t < 9 then {''Total hours < 9''} else {})
     \<union> (case com of None \<Rightarrow> {}
        | Some m \<Rightarrow> if real_of_int m > 22 * 60 + otLate then {''Checkout after 10pm''} else {})"
  by (auto simp: abnormalReasons_def Let_def otLateWindowEnd_def split: option.splits)

lemma abnormalReasons_distinct: "distinct (abnormalReasons ci co rounded com otLate)"
  by (auto simp: abnormalReasons_def Let_def split: option.splits)

lemma abnormalReasons_Nil:
  "abnormalReasons ci co rounded com otLate = [] \<longleftrightarrow>
     ci \<noteq> None \<and> co \<noteq> None \<and> (case rounded of None \<Rightarrow> True | Some t \<Rightarrow> \<not> t < 9)
     \<and> (case com of None \<Rightarrow> True | Some m \<Rightarrow> \<not> real_of_int m > 22 * 60 + otLate)"
  by (auto simp: abnormalReasons_def Let_def otLateWindowEnd_def split: option.splits)

lemma ses_otHours_spec:
  "ses_otHours (sessionDoc cfg owner dk fci lco) =
       (if ses_abnormalReasons (sessionDoc cfg owner dk fci lco) \<noteq> [] then None
        else Some (spec_otHours (ses_totalHours (sessionDoc cfg owner dk fci lco))
                     (map_option (\<lambda>e. spec_effectiveOtCheckout (otEarlyBufferMinutes cfg)
                                       (otLateBufferMinutes cfg) (getTimeMinutes (fst e))) lco)))"
  by (cases lco)
     (auto simp: ses_otHours_sessionDoc ses_isAbnormal_sessionDoc otHoursRounded_def
        effectiveOtCheckoutMinutes_def spec_effectiveOtCheckout_def otHours_def spec_otHours_def
        otEarlyWindowStart_def otLateWindowEnd_def split: option.splits)

lemma not_abnormal_total_ge9:
  assumes "ses_abnormalReasons (sessionDoc cfg owner dk fci lco) = []"
  shows "\<exists>t. ses_totalHours (sessionDoc cfg owner dk fci lco) = Some t \<and> 9 \<le> t"
  using assms totalHours_known_iff [of cfg owner dk fci lco]
  by (cases "ses_totalHours (sessionDoc cfg owner dk fci lco)")
     (auto simp: ses_abnormalReasons_sessionDoc abnormalReasons_Nil)

lemma ex_times:
  "getTimeMinutes (ex_at 7 55) = 475" "getTimeMinutes (ex_at 8 0) = 480"
  "getTimeMinutes (ex_at 16 58) = 1018" "getTimeMinutes (ex_at 17 0) = 1020"
  "getTimeMinutes (ex_at 17 3) = 1023"
  by (simp_all add: getTimeMinutes_def ex_at_def ex_midnight_def KL_OFFSET_MS_def)

lemmas session_eval =
  ses_amountRM_sessionDoc ses_normalHours_sessionDoc ses_otHours_sessionDoc
  ses_isAbnormal_sessionDoc ses_abnormalReasons_sessionDoc ses_totalHours_sessionDoc
  amountRM_def normalHours_def otHoursRounded_def otHours_def effectiveOtCheckoutMinutes_def
  abnormalReasons_def totalHoursRounded_def totalHoursAdjusted_def totalHoursRaw_def
  isWithinEarlyCheckoutBuffer_def otLateWindowEnd_def otEarlyWindowStart_def
  DEFAULT_BUFFER_SETTINGS_def ex_owner_def ex_times toFixed2_def Let_def

subsection \<open>Total hours\<close>

text \<open>
  C4.  For every aggregation input, the stored \<open>totalHours\<close> is null when the check-in or
  the check-out is missing; otherwise it is, rounded to two decimal places, the hours
  from check-in to check-out (not below 0) plus \<open>(17:00 - checkout minutes) / 60\<close> when
  the checkout minutes lie in \<open>[17:00 - earlyCheckoutBufferMinutes, 17:00]\<close>.
\<close>

theorem C4_total_hours:
  "rel_option roundedTo2
     (spec_totalHours (earlyCheckoutBufferMinutes cfg) (map_option fst fci) (map_option fst lco))
     (ses_totalHours (sessionDoc cfg owner dk fci lco))"
  by (cases fci; cases lco)
     (auto simp: ses_totalHours_sessionDoc spec_totalHours_def totalHoursRounded_def
        totalHoursAdjusted_def totalHoursRaw_def isWithinEarlyCheckoutBuffer_def
        toFixed2_rounds max.commute)

theorem C4_total_hours_witness:
  "spec_totalHours 5 (Some (ex_at 8 0)) (Some (ex_at 16 58)) = Some 9
   \<and> ses_totalHours (sessionDoc DEFAULT_BUFFER_SETTINGS (ex_owner 10 15) ''2024-03-01''
         (Some (ex_at 8 0, ''s1'', ''Site 1'')) (Some (ex_at 16 58, ''s1'', ''Site 1'')))
       = Some 9"
  using C4_total_hours [of DEFAULT_BUFFER_SETTINGS "Some (ex_at 8 0, ''s1'', ''Site 1'')"
      "Some (ex_at 16 58, ''s1'', ''Site 1'')" "ex_owner 10 15" "''2024-03-01''"]
  by (simp add: session_eval spec_totalHours_def, simp add: ex_at_def)

subsection \<open>Overtime\<close>

text \<open>
  C3.  For every aggregation input: a known checkout has the effective overtime checkout
  22:00 when its minutes lie in \<open>[22:00 - otEarlyBufferMinutes, 22:00 +
  otLateBufferMinutes]\<close> and its own minutes otherwise; the overtime hours are 0 unless
  the total hours are at least 9 and the checkout is known, and then 4 from an effective
  checkout of 22:00 on, 2 from 19:00 on, 0 before; the stored \<open>otHours\<close> is that number
  in a session without abnormal reason.
\<close>

theorem C3_overtime:
  "effectiveOtCheckoutMinutes (Some m) otEarly otLate
     = Some (spec_effectiveOtCheckout otEarly otLate m)
   \<and> effectiveOtCheckoutMinutes None otEarly otLate = None
   \<and> otHours totalH effective = spec_otHours totalH effective
   \<and> ses_otHours (sessionDoc cfg owner dk fci lco) =
       (if ses_abnormalReasons (sessionDoc cfg owner dk fci lco) \<noteq> [] then None
        else Some (spec_otHours (ses_totalHours (sessionDoc cfg owner dk fci lco))
                     (map_option (\<lambda>e. spec_effectiveOtCheckout (otEarlyBufferMinutes cfg)
                                       (otLateBufferMinutes cfg) (getTimeMinutes (fst e))) lco)))"
  by (cases lco)
     (auto simp: ses_otHours_spec effectiveOtCheckoutMinutes_def spec_effectiveOtCheckout_def
        otHours_def spec_otHours_def otEarlyWindowStart_def otLateWindowEnd_def
        split: option.splits)

subsection \<open>Abnormal reasons and pay\<close>

text \<open>
  C2.  For every aggregation input, the list of abnormal reasons holds exactly the
  entries that apply among missing check-in, missing check-out, total hours below 9
  (when known) and checkout minutes after \<open>22:00 + otLateBufferMinutes\<close>, each once;
  \<open>normalHours\<close>, \<open>otHours\<close> and \<open>amountRM\<close> are all null exactly when the list is not
  empty; and with an empty list \<open>normalHours\<close> is \<open>min(totalHours, 9)\<close> rounded to two
  decimals, \<open>otHours\<close> is the number of the overtime rule and \<open>amountRM\<close> is
  \<open>normalHours * normalRate + otHours * otRate\<close> rounded to two decimals.
\<close>

theorem C2_abnormal_reasons_and_pay:
  "(''Missing check-in'' \<in> set (ses_abnormalReasons (sessionDoc cfg owner dk fci lco))
      \<longleftrightarrow> fci = None)
   \<and> (''Missing check-out'' \<in> set (ses_abnormalReasons (sessionDoc cfg owner dk fci lco))
      \<longleftrightarrow> lco = None)
   \<and> (''Total hours < 9'' \<in> set (ses_abnormalReasons (sessionDoc cfg owner dk fci lco))
      \<longleftrightarrow> (case ses_totalHours (sessionDoc cfg owner dk fci lco) of
             None \<Rightarrow> False | Some t \<Rightarrow> t < 9))
   \<and> (''Checkout after 10pm'' \<in> set (ses_abnormalReasons (sessionDoc cfg owner dk fci lco))
      \<longleftrightarrow> (case lco of None \<Rightarrow> False
           | Some e \<Rightarrow> real_of_int (getTimeMinutes (fst e)) > 22 * 60 + otLateBufferMinutes cfg))
   \<and> set (ses_abnormalReasons (sessionDoc cfg owner dk fci lco))
       \<subseteq> {''Missing check-in'', ''Missing check-out'', ''Total hours < 9'', ''Checkout after 10pm''}
   \<and> distinct (ses_abnormalReasons (sessionDoc cfg owner dk fci lco))
   \<and> ((ses_normalHours (sessionDoc cfg owner dk fci lco) = None
        \<and> ses_otHours (sessionDoc cfg owner dk fci lco) = None
        \<and> ses_amountRM (sessionDoc cfg owner dk fci lco) = None)
       \<longleftrightarrow> ses_abnormalReasons (sessionDoc cfg owner dk fci lco) \<noteq> [])
   \<and> (ses_abnormalReasons (sessionDoc cfg owner dk fci lco) = [] \<longrightarrow>
       (\<exists>t nh ot amount.
          ses_totalHours (sessionDoc cfg owner dk fci lco) = Some t
          \<and> ses_normalHours (sessionDoc cfg owner dk fci lco) = Some nh
          \<and> roundedTo2 (min t 9) nh
          \<and> ses_otHours (sessionDoc cfg owner dk fci lco) = Some ot
          \<and> ot = spec_otHours (Some t)
                   (map_option (\<lambda>e. spec_effectiveOtCheckout (otEarlyBufferMinutes cfg)
                                     (otLateBufferMinutes cfg) (getTimeMinutes (fst e))) lco)
          \<and> ses_amountRM (sessionDoc cfg owner dk fci lco) = Some amount
          \<and> roundedTo2 (nh * own_normalRate owner + ot * own_otRate owner) amount))"
proof -
  let ?s = "sessionDoc cfg owner dk fci lco"
  let ?rs = "ses_abnormalReasons ?s"
  have set_rs: "set ?rs =
     (if fci = None then {''Missing check-in''} else {})
     \<union> (if lco = None then {''Missing check-out''} else {})
     \<union> (case ses_totalHours ?s of None \<Rightarrow> {}
        | Some t \<Rightarrow> if t < 9 then {''Total hours < 9''} else {})
     \<union> (case lco of None \<Rightarrow> {}
        | Some e \<Rightarrow> if real_of_int (getTimeMinutes (fst e)) > 22 * 60 + otLateBufferMinutes cfg
                   then {''Checkout after 10pm''} else {})"
    by (simp add: ses_abnormalReasons_sessionDoc abnormalReasons_set split: option.splits)
  have m1: "''Missing check-in'' \<in> set ?rs \<longleftrightarrow> fci = None"
    unfolding set_rs by (simp split: option.splits)
  have m2: "''Missing check-out'' \<in> set ?rs \<longleftrightarrow> lco = None"
    unfolding set_rs by (simp split: option.splits)
  have m3: "''Total hours < 9'' \<in> set ?rs
      \<longleftrightarrow> (case ses_totalHours ?s of None \<Rightarrow> False | Some t \<Rightarrow> t < 9)"
    unfolding set_rs by (simp split: option.splits)
  have m4: "''Checkout after 10pm'' \<in> set ?rs
      \<longleftrightarrow> (case lco of None \<Rightarrow> False
           | Some e \<Rightarrow> real_of_int (getTimeMinutes (fst e)) > 22 * 60 + otLateBufferMinutes cfg)"
    unfolding set_rs by (simp split: option.splits)
  have sub: "set ?rs \<subseteq> {''Missing check-in'', ''Missing check-out'', ''Total hours < 9'',
                        ''Checkout after 10pm''}"
    unfolding set_rs by (simp split: option.splits)
  have dist: "distinct ?rs"
    by (simp add: ses_abnormalReasons_sessionDoc abnormalReasons_distinct)
  have known: "?rs = [] \<Longrightarrow> \<exists>t. ses_totalHours ?s = Some t"
    using m1 m2 totalHours_known_iff [of cfg owner dk fci lco] by (cases "ses_totalHours ?s") auto
  have nulls: "(ses_normalHours ?s = None \<and> ses_otHours ?s = None \<and> ses_amountRM ?s = None)
       \<longleftrightarrow> ?rs \<noteq> []"
    using known
    by (auto simp: ses_normalHours_sessionDoc ses_otHours_sessionDoc ses_amountRM_sessionDoc
        ses_isAbnormal_sessionDoc normalHours_def otHoursRounded_def amountRM_def
        split: option.splits)
  have pay: "\<exists>t nh ot amount.
          ses_totalHours ?s = Some t
          \<and> ses_normalHours ?s = Some nh
          \<and> roundedTo2 (min t 9) nh
          \<and> ses_otHours ?s = Some ot
          \<and> ot = spec_otHours (Some t)
                   (map_option (\<lambda>e. spec_effectiveOtCheckout (otEarlyBufferMinutes cfg)
                                     (otLateBufferMinutes cfg) (getTimeMinutes (fst e))) lco)
          \<and> ses_amountRM ?s = Some amount
          \<and> roundedTo2 (nh * own_normalRate owner + ot * own_otRate owner) amount"
    if empty: "?rs = []"
  proof -
    from known [OF empty] obtain t where t: "ses_totalHours ?s = Some t" by blast
    have nh: "ses_normalHours ?s = Some (toFixed2 (min t 9))"
      using empty t by (simp add: ses_normalHours_sessionDoc ses_isAbnormal_sessionDoc normalHours_def)
    have ot: "ses_otHours ?s = Some (spec_otHours (Some t)
                   (map_option (\<lambda>e. spec_effectiveOtCheckout (otEarlyBufferMinutes cfg)
                                     (otLateBufferMinutes cfg) (getTimeMinutes (fst e))) lco))"
      using empty t by (simp add: ses_otHours_spec)
    have amt: "ses_amountRM ?s = Some (toFixed2 (toFixed2 (min t 9) * own_normalRate owner
                 + spec_otHours (Some t)
                   (map_option (\<lambda>e. spec_effectiveOtCheckout (otEarlyBufferMinutes cfg)
                                     (otLateBufferMinutes cfg) (getTimeMinutes (fst e))) lco)
                   * own_otRate owner))"
      using empty by (simp add: ses_amountRM_sessionDoc [of cfg owner dk fci lco] nh ot
          ses_isAbnormal_sessionDoc amountRM_def)
    show ?thesis using t nh ot amt toFixed2_rounds by simp
  qed
  show ?thesis using m1 m2 m3 m4 sub dist nulls pay by blast
qed

theorem C2_abnormal_reasons_and_pay_witness:
  "ses_abnormalReasons (sessionDoc DEFAULT_BUFFER_SETTINGS (ex_owner 10 15) ''2024-03-01''
       (Some (ex_at 7 55, ''s1'', ''Site 1'')) (Some (ex_at 17 3, ''s1'', ''Site 1''))) = []
   \<and> ses_totalHours (sessionDoc DEFAULT_BUFFER_SETTINGS (ex_owner 10 15) ''2024-03-01''
       (Some (ex_at 7 55, ''s1'', ''Site 1'')) (Some (ex_at 17 3, ''s1'', ''Site 1'')))
      = Some (913 / 100)
   \<and> ses_normalHours (sessionDoc DEFAULT_BUFFER_SETTINGS (ex_owner 10 15) ''2024-03-01''
       (Some (ex_at 7 55, ''s1'', ''Site 1'')) (Some (ex_at 17 3, ''s1'', ''Site 1'')))
      = Some 9
   \<and> ses_otHours (sessionDoc DEFAULT_BUFFER_SETTINGS (ex_owner 10 15) ''2024-03-01''
       (Some (ex_at 7 55, ''s1'', ''Site 1'')) (Some (ex_at 17 3, ''s1'', ''Site 1'')))
      = Some 0
   \<and> ses_amountRM (sessionDoc DEFAULT_BUFFER_SETTINGS (ex_owner 10 15) ''2024-03-01''
       (Some (ex_at 7 55, ''s1'', ''Site 1'')) (Some (ex_at 17 3, ''s1'', ''Site 1'')))
      = Some 90"
  using C2_abnormal_reasons_and_pay [of DEFAULT_BUFFER_SETTINGS "ex_owner 10 15" "''2024-03-01''"
      "Some (ex_at 7 55, ''s1'', ''Site 1'')" "Some (ex_at 17 3, ''s1'', ''Site 1'')"]
  by (simp add: session_eval, simp add: ex_at_def)

subsection \<open>Normal hours of a paid session\<close>

text \<open>
  C10, amended.  In every persisted session whose amount is not null, no abnormal reason
  applies and \<open>normalHours\<close> is exactly 9; the amount is \<open>9 * normalRate + otHours *
  otRate\<close> rounded to two decimals, and it is that value itself when the value is a whole
  number of hundredths.
\<close>

theorem C10_normal_hours_nine:
  assumes "ses_amountRM (sessionDoc cfg owner dk fci lco) \<noteq> None"
  shows "ses_abnormalReasons (sessionDoc cfg owner dk fci lco) = []
    \<and> ses_normalHours (sessionDoc cfg owner dk fci lco) = Some 9
    \<and> (\<exists>ot amount.
          ses_otHours (sessionDoc cfg owner dk fci lco) = Some ot
          \<and> ses_amountRM (sessionDoc cfg owner dk fci lco) = Some amount
          \<and> roundedTo2 (9 * own_normalRate owner + ot * own_otRate owner) amount
          \<and> (real_of_int \<lfloor>(9 * own_normalRate owner + ot * own_otRate owner) * 100\<rfloor>
                = (9 * own_normalRate owner + ot * own_otRate owner) * 100
              \<longrightarrow> amount = 9 * own_normalRate owner + ot * own_otRate owner))"
proof -
  let ?s = "sessionDoc cfg owner dk fci lco"
  have empty: "ses_abnormalReasons ?s = []"
    using assms by (simp add: ses_amountRM_sessionDoc ses_isAbnormal_sessionDoc amountRM_def split: if_splits)
  from not_abnormal_total_ge9 [OF empty] obtain t where t: "ses_totalHours ?s = Some t" "9 \<le> t"
    by blast
  have nh: "ses_normalHours ?s = Some 9"
    using empty t by (simp add: ses_normalHours_sessionDoc ses_isAbnormal_sessionDoc normalHours_def
        min_def toFixed2_9)
  obtain ot where ot: "ses_otHours ?s = Some ot"
    using empty by (simp add: ses_otHours_spec)
  have amt: "ses_amountRM ?s = Some (toFixed2 (9 * own_normalRate owner + ot * own_otRate owner))"
    using empty by (simp add: ses_amountRM_sessionDoc [of cfg owner dk fci lco] nh ot
        ses_isAbnormal_sessionDoc amountRM_def)
  show ?thesis using empty nh ot amt toFixed2_rounds toFixed2_cents by simp
qed

theorem C10_normal_hours_nine_witness:
  "ses_amountRM (sessionDoc DEFAULT_BUFFER_SETTINGS (ex_owner 10 15) ''2024-03-01''
       (Some (ex_at 7 55, ''s1'', ''Site 1'')) (Some (ex_at 17 3, ''s1'', ''Site 1''))) \<noteq> None
   \<and> ses_normalHours (sessionDoc DEFAULT_BUFFER_SETTINGS (ex_owner 10 15) ''2024-03-01''
       (Some (ex_at 7 55, ''s1'', ''Site 1'')) (Some (ex_at 17 3, ''s1'', ''Site 1'')))
      = Some 9"
proof -
  have nonnull: "ses_amountRM (sessionDoc DEFAULT_BUFFER_SETTINGS (ex_owner 10 15) ''2024-03-01''
       (Some (ex_at 7 55, ''s1'', ''Site 1'')) (Some (ex_at 17 3, ''s1'', ''Site 1''))) \<noteq> None"
    by (simp add: session_eval, simp add: ex_at_def)
  show ?thesis using nonnull C10_normal_hours_nine [OF nonnull] by simp
qed

text \<open>
  The claim as written, with the amount not rounded, fails for a rate with more than two
  decimals: at a normal rate of 0.001 and nine hours the amount is 0.01, not 0.009.
\<close>

theorem C10_amount_unrounded_counterexample:
  "ses_amountRM (sessionDoc DEFAULT_BUFFER_SETTINGS (ex_owner (1 / 1000) 0) ''2024-03-01''
       (Some (ex_at 8 0, ''s1'', ''Site 1'')) (Some (ex_at 17 0, ''s1'', ''Site 1'')))
     = Some (1 / 100)
   \<and> ses_normalHours (sessionDoc DEFAULT_BUFFER_SETTINGS (ex_owner (1 / 1000) 0) ''2024-03-01''
       (Some (ex_at 8 0, ''s1'', ''Site 1'')) (Some (ex_at 17 0, ''s1'', ''Site 1'')))
     = Some 9
   \<and> ses_otHours (sessionDoc DEFAULT_BUFFER_SETTINGS (ex_owner (1 / 1000) 0) ''2024-03-01''
       (Some (ex_at 8 0, ''s1'', ''Site 1'')) (Some (ex_at 17 0, ''s1'', ''Site 1'')))
     = Some 0
   \<and> (1 / 100 :: real) \<noteq> 9 * (1 / 1000) + 0 * 0"
  by (simp add: session_eval, simp add: ex_at_def)

section \<open>Properties of the buffer settings\<close>

lemma getBufferSettings_fields:
  "lateBufferMinutes (getBufferSettings snapshot)
     = normalizeSetting (storedField snapshot ''lateBufferMinutes'') 5"
  "earlyCheckoutBufferMinutes (getBufferSettings snapshot)
     = normalizeSetting (storedField snapshot ''earlyCheckoutBufferMinutes'') 5"
  "otEarlyBufferMinutes (getBufferSettings snapshot)
     = normalizeSetting (storedField snapshot ''otEarlyBufferMinutes'') 15"
  "otLateBufferMinutes (getBufferSettings snapshot)
     = normalizeSetting (storedField snapshot ''otLateBufferMinutes'') 60"
  by (simp_all add: getBufferSettings_def storedField_def DEFAULT_BUFFER_SETTINGS_def Let_def
      split: option.splits)

lemma normalizeSetting_cases:
  "normalizeSetting v d = (case v of Some (FsNumber x) \<Rightarrow> x | _ \<Rightarrow> d)"
  by (simp add: normalizeSetting_def)

lemma normalizeSetting_minutes:
  "isMinutes d \<Longrightarrow> (\<And>x. v = Some (FsNumber x) \<Longrightarrow> isMinutes x) \<Longrightarrow> isMinutes (normalizeSetting v d)"
  by (auto simp: normalizeSetting_def split: option.splits fs_value.splits)

lemma isMinutes_defaults: "isMinutes 5" "isMinutes 15" "isMinutes 60"
  by (simp_all add: isMinutes_def)

text \<open>
  C9, amended.  The read of the buffer settings returns, for each of the four fields,
  the stored value when it is a number other than NaN and the fixed default (late 5,
  early checkout 5, overtime early 15, overtime late 60) when the field is missing, is
  not a number or is NaN; so it returns four non-negative whole minutes whenever every
  number stored in the document is one.  The result is a plain record: there is no
  error for the caller to see.
\<close>

theorem C9_buffer_settings:
  "lateBufferMinutes (getBufferSettings snapshot)
     = (case storedField snapshot ''lateBufferMinutes'' of Some (FsNumber x) \<Rightarrow> x | _ \<Rightarrow> 5)
   \<and> earlyCheckoutBufferMinutes (getBufferSettings snapshot)
     = (case storedField snapshot ''earlyCheckoutBufferMinutes'' of Some (FsNumber x) \<Rightarrow> x | _ \<Rightarrow> 5)
   \<and> otEarlyBufferMinutes (getBufferSettings snapshot)
     = (case storedField snapshot ''otEarlyBufferMinutes'' of Some (FsNumber x) \<Rightarrow> x | _ \<Rightarrow> 15)
   \<and> otLateBufferMinutes (getBufferSettings snapshot)
     = (case storedField snapshot ''otLateBufferMinutes'' of Some (FsNumber x) \<Rightarrow> x | _ \<Rightarrow> 60)
   \<and> ((\<forall>name x. storedField snapshot name = Some (FsNumber x) \<longrightarrow> isMinutes x) \<longrightarrow>
        isMinutes (lateBufferMinutes (getBufferSettings snapshot))
        \<and> isMinutes (earlyCheckoutBufferMinutes (getBufferSettings snapshot))
        \<and> isMinutes (otEarlyBufferMinutes (getBufferSettings snapshot))
        \<and> isMinutes (otLateBufferMinutes (getBufferSettings snapshot)))"
  by (simp add: getBufferSettings_fields normalizeSetting_minutes isMinutes_defaults)
     (simp add: normalizeSetting_cases)

theorem C9_buffer_settings_witness:
  "getBufferSettings (Some [(''lateBufferMinutes'', FsNumber 10),
                            (''earlyCheckoutBufferMinutes'', FsString ''7''),
                            (''otLateBufferMinutes'', FsNaN)])
     = \<lparr> lateBufferMinutes = 10, earlyCheckoutBufferMinutes = 5,
         otEarlyBufferMinutes = 15, otLateBufferMinutes = 60 \<rparr>
   \<and> isMinutes (lateBufferMinutes (getBufferSettings
        (Some [(''lateBufferMinutes'', FsNumber 10),
               (''earlyCheckoutBufferMinutes'', FsString ''7''),
               (''otLateBufferMinutes'', FsNaN)])))"
  using C9_buffer_settings [of "Some [(''lateBufferMinutes'', FsNumber 10),
                            (''earlyCheckoutBufferMinutes'', FsString ''7''),
                            (''otLateBufferMinutes'', FsNaN)]"]
  by (simp add: storedField_def isMinutes_def getBufferSettings_def normalizeSetting_def
      DEFAULT_BUFFER_SETTINGS_def)

text \<open>
  The claim as written fails on a stored value the administrator's settings page
  accepts: 2.5 is a number, not negative and not NaN, and comes back unchanged.
\<close>

theorem C9_fractional_minutes_counterexample:
  "lateBufferMinutes (getBufferSettings (Some [(''lateBufferMinutes'', FsNumber (5 / 2))])) = 5 / 2
   \<and> \<not> isMinutes (lateBufferMinutes
           (getBufferSettings (Some [(''lateBufferMinutes'', FsNumber (5 / 2))])))"
  by (simp add: isMinutes_def getBufferSettings_def normalizeSetting_def
      DEFAULT_BUFFER_SETTINGS_def)

section \<open>Properties of the session store\<close>

subsection \<open>One batch\<close>

lemma batchCommit_deletes:
  "batchCommit (map (\<lambda>d. BatchDelete (fst d)) ds) c = filter (\<lambda>x. fst x \<notin> fst ` set ds) c"
proof (induction ds arbitrary: c)
  case Nil
  then show ?case by (simp add: batchCommit_def)
next
  case (Cons d ds)
  have "batchCommit (map (\<lambda>d. BatchDelete (fst d)) (d # ds)) c
        = batchCommit (map (\<lambda>d. BatchDelete (fst d)) ds) (filter (\<lambda>x. fst x \<noteq> fst d) c)"
    by (simp add: batchCommit_def)
  also have "\<dots> = filter (\<lambda>x. fst x \<notin> fst ` set ds) (filter (\<lambda>x. fst x \<noteq> fst d) c)"
    by (rule Cons.IH)
  also have "\<dots> = filter (\<lambda>x. fst x \<notin> fst ` set (d # ds)) c"
    by (auto intro: filter_cong)
  finally show ?case .
qed

lemma batchCommit_append:
  "batchCommit (ws @ vs) c = batchCommit vs (batchCommit ws c)"
  by (simp add: batchCommit_def)

lemma replaceSession_fresh:
  assumes "ref \<notin> docIds c"
  shows "replaceSession u d ref s c
         = filter (\<lambda>x. fst x \<notin> docIds (sessionQuery u d c)) c @ [(ref, s)]"
proof -
  have "ref \<notin> fst ` set (filter (\<lambda>x. fst x \<notin> fst ` set (sessionQuery u d c)) c)"
    using assms by (auto simp: docIds_def)
  moreover have "replaceSession u d ref s c
      = batchCommit [BatchSet ref s] (filter (\<lambda>x. fst x \<notin> fst ` set (sessionQuery u d c)) c)"
    by (simp add: replaceSession_def Let_def batchCommit_append batchCommit_deletes)
  moreover have "\<And>c'. ref \<notin> fst ` set c' \<Longrightarrow> batchCommit [BatchSet ref s] c' = c' @ [(ref, s)]"
    by (simp add: batchCommit_def)
  ultimately show ?thesis by (simp add: docIds_def)
qed

lemma sessionQuery_append:
  "sessionQuery u d (xs @ ys) = sessionQuery u d xs @ sessionQuery u d ys"
  by (simp add: sessionQuery_def)

lemma sessionQuery_same_after_delete:
  "sessionQuery u d (filter (\<lambda>x. fst x \<notin> docIds (sessionQuery u d c)) c) = []"
  by (auto simp: sessionQuery_def docIds_def filter_empty_conv)

lemma sessionQuery_other_after_delete:
  assumes "distinct (map fst c)" "(u', d') \<noteq> (u, d)"
  shows "sessionQuery u' d' (filter (\<lambda>x. fst x \<notin> docIds (sessionQuery u d c)) c)
         = sessionQuery u' d' c"
proof -
  have "\<And>x. x \<in> set c \<Longrightarrow> ses_userId (snd x) = u' \<and> ses_dateKey (snd x) = d'
          \<Longrightarrow> fst x \<notin> docIds (sessionQuery u d c)"
  proof
    fix x assume x: "x \<in> set c" "ses_userId (snd x) = u' \<and> ses_dateKey (snd x) = d'"
      and "fst x \<in> docIds (sessionQuery u d c)"
    then obtain y where y: "y \<in> set c" "fst y = fst x"
       "ses_userId (snd y) = u" "ses_dateKey (snd y) = d"
      by (auto simp: docIds_def sessionQuery_def)
    from assms(1) x(1) y(1,2) have "x = y"
      by (metis eq_key_imp_eq_value prod.collapse)
    with x(2) y(3,4) assms(2) show False by simp
  qed
  then show ?thesis
    unfolding sessionQuery_def filter_filter by (intro filter_cong) auto
qed

lemma replaceSession_own_key:
  assumes "ref \<notin> docIds c" "ses_userId s = u" "ses_dateKey s = d"
  shows "sessionQuery u d (replaceSession u d ref s c) = [(ref, s)]"
  using assms
  by (simp add: replaceSession_fresh sessionQuery_append sessionQuery_same_after_delete)
     (simp add: sessionQuery_def)

lemma replaceSession_other_key:
  assumes "ref \<notin> docIds c" "distinct (map fst c)" "ses_userId s = u" "ses_dateKey s = d"
    "(u', d') \<noteq> (u, d)"
  shows "sessionQuery u' d' (replaceSession u d ref s c) = sessionQuery u' d' c"
  using assms
  by (simp add: replaceSession_fresh sessionQuery_append sessionQuery_other_after_delete)
     (auto simp: sessionQuery_def)

lemma replaceSession_docIds:
  assumes "ref \<notin> docIds c"
  shows "docIds (replaceSession u d ref s c) \<subseteq> insert ref (docIds c)"
  using assms by (auto simp: replaceSession_fresh docIds_def)

lemma replaceSession_distinct:
  assumes "ref \<notin> docIds c" "distinct (map fst c)"
  shows "distinct (map fst (replaceSession u d ref s c))"
  using assms by (auto simp: replaceSession_fresh docIds_def distinct_map_filter)

subsection \<open>The loop over the keys\<close>

lemma freshFrom_step:
  assumes "inj refs" "freshFrom refs n c"
  shows "freshFrom refs (Suc n) (replaceSession u d (refs n) s c)"
proof -
  have fresh: "refs n \<notin> docIds c" and dist: "distinct (map fst c)"
    using assms(2) by (auto simp: freshFrom_def)
  have "refs m \<notin> docIds (replaceSession u d (refs n) s c)" if "m \<ge> Suc n" for m
  proof -
    have "refs m \<noteq> refs n" using that assms(1) by (auto dest: injD)
    moreover have "refs m \<notin> docIds c" using that assms(2) by (simp add: freshFrom_def)
    ultimately show ?thesis using replaceSession_docIds [OF fresh, of u d s] by auto
  qed
  then show ?thesis
    using replaceSession_distinct [OF fresh dist] by (simp add: freshFrom_def)
qed

lemma replaceAll_other_key:
  assumes "inj refs" "freshFrom refs n c" "keyed ts" "(u, d) \<notin> keyOf ` set ts"
  shows "sessionQuery u d (replaceAll refs n ts c) = sessionQuery u d c"
  using assms(2-4)
proof (induction ts arbitrary: n c)
  case Nil
  then show ?case by simp
next
  case (Cons t ts)
  obtain u1 d1 s1 where t: "t = (u1, d1, s1)" by (cases t) auto
  have own: "ses_userId s1 = u1" "ses_dateKey s1 = d1"
    using Cons.prems(2) by (auto simp: keyed_def t)
  have ne: "(u, d) \<noteq> (u1, d1)" using Cons.prems(3) by (auto simp: keyOf_def t)
  have fresh: "refs n \<notin> docIds c" "distinct (map fst c)"
    using Cons.prems(1) by (auto simp: freshFrom_def)
  have "sessionQuery u d (replaceAll refs n (t # ts) c)
        = sessionQuery u d (replaceSession u1 d1 (refs n) s1 c)"
    unfolding t replaceAll.simps
    using Cons.prems by (intro Cons.IH freshFrom_step assms(1)) (auto simp: keyed_def)
  also have "\<dots> = sessionQuery u d c"
    using replaceSession_other_key [OF fresh own ne] .
  finally show ?case .
qed

lemma replaceAll_own_key:
  assumes "inj refs" "freshFrom refs n c" "keyed ts" "distinct (map keyOf ts)"
    "i < length ts" "ts ! i = (u, d, s)"
  shows "sessionQuery u d (replaceAll refs n ts c) = [(refs (n + i), s)]"
  using assms(2-6)
proof (induction ts arbitrary: n c i)
  case Nil
  then show ?case by simp
next
  case (Cons t ts)
  obtain u1 d1 s1 where t: "t = (u1, d1, s1)" by (cases t) auto
  have own: "ses_userId s1 = u1" "ses_dateKey s1 = d1"
    using Cons.prems(2) by (auto simp: keyed_def t)
  have fresh: "refs n \<notin> docIds c" "distinct (map fst c)"
    using Cons.prems(1) by (auto simp: freshFrom_def)
  have step: "freshFrom refs (Suc n) (replaceSession u1 d1 (refs n) s1 c)"
    by (rule freshFrom_step [OF assms(1) Cons.prems(1)])
  have keyed': "keyed ts" using Cons.prems(2) by (auto simp: keyed_def)
  show ?case
  proof (cases i)
    case 0
    then have eq: "u1 = u" "d1 = d" "s1 = s" using Cons.prems(5) by (auto simp: t)
    have "(u, d) \<notin> keyOf ` set ts" using Cons.prems(3) by (auto simp: t eq keyOf_def)
    then have "sessionQuery u d (replaceAll refs (Suc n) ts (replaceSession u1 d1 (refs n) s1 c))
          = sessionQuery u d (replaceSession u1 d1 (refs n) s1 c)"
      by (rule replaceAll_other_key [OF assms(1) step keyed'])
    also have "\<dots> = [(refs n, s)]"
      using replaceSession_own_key [OF fresh(1) own] by (simp add: eq)
    finally show ?thesis by (simp add: t 0)
  next
    case (Suc j)
    have "sessionQuery u d (replaceAll refs (Suc n) ts (replaceSession u1 d1 (refs n) s1 c))
          = [(refs (Suc n + j), s)]"
      using Cons.prems Suc by (intro Cons.IH step keyed') auto
    then show ?thesis by (simp add: t Suc)
  qed
qed

lemma recomputeLoop_replaceAll:
  assumes "map (recomputedSession cfg userMap) es = map Inr ts"
  shows "recomputeLoop cfg userMap refs n es c = Inr (replaceAll refs n ts c)"
  using assms
proof (induction es arbitrary: n c ts)
  case Nil
  then show ?case by simp
next
  case (Cons e es)
  then obtain t ts' where ts: "ts = t # ts'" "recomputedSession cfg userMap e = Inr t"
    "map (recomputedSession cfg userMap) es = map Inr ts'"
    by (cases ts) auto
  obtain u d s where t: "t = (u, d, s)" by (cases t) auto
  show ?case using Cons.IH [OF ts(3)] by (simp add: ts t)
qed

subsection \<open>Splitting a key\<close>

lemma jsSplit_no_sep: "sep \<notin> set s \<Longrightarrow> jsSplit sep cur s = [rev cur @ s]"
  by (induction s arbitrary: cur) auto

lemma jsSplit_first:
  "sep \<notin> set u \<Longrightarrow> jsSplit sep cur (u @ sep # rest) = (rev cur @ u) # jsSplit sep [] rest"
  by (induction u arbitrary: cur) auto

lemma jsSplit_sessionKey:
  assumes "noBar u" "noBar d"
  shows "jsSplit CHR ''|'' [] (sessionKey u d) = [u, d]"
  using assms jsSplit_first [of "CHR ''|''" u "[]" d] jsSplit_no_sep [of "CHR ''|''" d "[]"]
  by (simp add: sessionKey_def noBar_def)

lemma sessionKey_inj:
  assumes "noBar u" "noBar d" "noBar u'" "noBar d'" "sessionKey u d = sessionKey u' d'"
  shows "u = u' \<and> d = d'"
proof -
  have "[u, d] = jsSplit CHR ''|'' [] (sessionKey u d)"
    by (simp only: jsSplit_sessionKey [OF assms(1,2)])
  also have "\<dots> = jsSplit CHR ''|'' [] (sessionKey u' d')" by (simp only: assms(5))
  also have "\<dots> = [u', d']" by (simp only: jsSplit_sessionKey [OF assms(3,4)])
  finally show ?thesis by simp
qed

subsection \<open>Grouping\<close>

lemma mapSet_map_fst:
  "map fst (mapSet k v m) = (if k \<in> fst ` set m then map fst m else map fst m @ [k])"
proof -
  have "map fst (map (\<lambda>e. if fst e = k then (k, v) else e) m) = map fst m"
    by (induction m) auto
  then show ?thesis by (simp add: mapSet_def)
qed

lemma mapSet_keys: "fst ` set (mapSet k v m) = insert k (fst ` set m)"
proof -
  have "fst ` set (mapSet k v m) = set (map fst (mapSet k v m))" by simp
  also have "\<dots> = insert k (fst ` set m)"
    unfolding mapSet_map_fst by auto
  finally show ?thesis .
qed

lemma mapSet_distinct: "distinct (map fst m) \<Longrightarrow> distinct (map fst (mapSet k v m))"
  unfolding mapSet_map_fst by auto

lemma mapSet_entries:
  "e \<in> set (mapSet k v m) \<Longrightarrow> e = (k, v) \<or> e \<in> set m"
  by (auto simp: mapSet_def split: if_splits)

lemma groupStep_deleted: "isDeleted l \<Longrightarrow> groupStep l g = g"
  by (simp add: groupStep_def)

lemma groupStep_live:
  "\<not> isDeleted l \<Longrightarrow> \<exists>lst. groupStep l g = mapSet (logKey l) lst g \<and> lst \<noteq> []"
  unfolding groupStep_def Let_def logKey_def logDateKey_def
  by (simp only: if_False) (rule exI, rule conjI, rule refl, simp)

lemma groupStep_keys:
  "fst ` set (groupStep l g) = (if isDeleted l then {} else {logKey l}) \<union> fst ` set g"
proof (cases "isDeleted l")
  case True
  then show ?thesis by (simp add: groupStep_deleted)
next
  case False
  from groupStep_live [OF False, of g] obtain lst where "groupStep l g = mapSet (logKey l) lst g"
    by blast
  then show ?thesis using False by (simp add: mapSet_keys)
qed

lemma fold_groupStep_keys:
  "fst ` set (fold groupStep ls g) = fst ` set g \<union> logKey ` {l \<in> set ls. \<not> isDeleted l}"
proof (induction ls arbitrary: g)
  case Nil
  then show ?case by simp
next
  case (Cons l ls)
  show ?case by (simp add: Cons.IH groupStep_keys) blast
qed

lemma fold_groupStep_distinct:
  "distinct (map fst g) \<Longrightarrow> distinct (map fst (fold groupStep ls g))"
proof (induction ls arbitrary: g)
  case Nil
  then show ?case by simp
next
  case (Cons l ls)
  have "distinct (map fst (groupStep l g))"
    using groupStep_live [of l g] Cons.prems
    by (cases "isDeleted l") (auto simp: groupStep_deleted mapSet_distinct)
  then show ?case by (simp add: Cons.IH)
qed

lemma fold_groupStep_nonempty:
  "\<forall>e\<in>set g. snd e \<noteq> [] \<Longrightarrow> \<forall>e\<in>set (fold groupStep ls g). snd e \<noteq> []"
proof (induction ls arbitrary: g)
  case Nil
  then show ?case by simp
next
  case (Cons l ls)
  have "\<forall>e\<in>set (groupStep l g). snd e \<noteq> []"
  proof (cases "isDeleted l")
    case True
    then show ?thesis using Cons.prems by (simp add: groupStep_deleted)
  next
    case False
    from groupStep_live [OF False, of g] obtain lst where
      "groupStep l g = mapSet (logKey l) lst g" "lst \<noteq> []" by blast
    then show ?thesis using Cons.prems mapSet_entries [of _ "logKey l" lst g] by fastforce
  qed
  then show ?case by (simp add: Cons.IH)
qed

lemma rangeGroups_keys:
  "fst ` set (rangeGroups startDate endDate c) = logKey ` rangeLogs startDate endDate c"
  by (auto simp: rangeGroups_def Let_def fold_groupStep_keys rangeLogs_def image_iff)

lemma rangeGroups_distinct: "distinct (map fst (rangeGroups startDate endDate c))"
  by (simp add: rangeGroups_def Let_def fold_groupStep_distinct)

lemma rangeGroups_nonempty: "e \<in> set (rangeGroups startDate endDate c) \<Longrightarrow> snd e \<noteq> []"
  using fold_groupStep_nonempty [of "[]"] by (auto simp: rangeGroups_def Let_def)

subsection \<open>The store after a run\<close>

lemma ses_key_sessionDoc:
  "ses_userId (sessionDoc cfg owner dk fci lco) = own_userId owner"
  "ses_dateKey (sessionDoc cfg owner dk fci lco) = dk"
  by (simp_all add: sessionDoc_def Let_def)

lemma sessionQuery_conv:
  "sessionQuery u d c = filter (\<lambda>x. sessionDocKey x = (u, d)) c"
  by (simp add: sessionQuery_def sessionDocKey_def)

lemma replaceSession_closed:
  assumes "ref \<notin> docIds c" "distinct (map fst c)"
  shows "replaceSession u d ref s c = filter (\<lambda>x. sessionDocKey x \<noteq> (u, d)) c @ [(ref, s)]"
proof -
  have "fst x \<notin> docIds (sessionQuery u d c) \<longleftrightarrow> sessionDocKey x \<noteq> (u, d)" if "x \<in> set c" for x
  proof
    assume "fst x \<notin> docIds (sessionQuery u d c)"
    then show "sessionDocKey x \<noteq> (u, d)"
      using that by (auto simp: docIds_def sessionQuery_conv)
  next
    assume ne: "sessionDocKey x \<noteq> (u, d)"
    show "fst x \<notin> docIds (sessionQuery u d c)"
    proof
      assume "fst x \<in> docIds (sessionQuery u d c)"
      then obtain y where y: "y \<in> set c" "fst y = fst x" "sessionDocKey y = (u, d)"
        by (auto simp: docIds_def sessionQuery_conv)
      from assms(2) that y(1,2) have "x = y"
        by (metis eq_key_imp_eq_value prod.collapse)
      with ne y(3) show False by simp
    qed
  qed
  then have "filter (\<lambda>x. fst x \<notin> docIds (sessionQuery u d c)) c
             = filter (\<lambda>x. sessionDocKey x \<noteq> (u, d)) c"
    by (intro filter_cong) auto
  then show ?thesis by (simp add: replaceSession_fresh [OF assms(1)])
qed

lemma newDocs_Nil: "newDocs refs n [] = []"
  by (simp add: newDocs_def)

lemma newDocs_Cons: "newDocs refs n (t # ts) = (refs n, snd (snd t)) # newDocs refs (Suc n) ts"
proof -
  have "[0 ..< length (t # ts)] = 0 # map Suc [0 ..< length ts]"
    by (simp add: upt_conv_Cons map_Suc_upt del: upt_Suc)
  then show ?thesis by (simp add: newDocs_def comp_def del: upt_Suc)
qed

lemma newDocs_values: "map snd (newDocs refs n ts) = map (snd \<circ> snd) ts"
  by (induction ts arbitrary: n) (simp_all add: newDocs_Nil newDocs_Cons)

lemma newDocs_keys:
  "keyed ts \<Longrightarrow> map sessionDocKey (newDocs refs n ts) = map keyOf ts"
  by (induction ts arbitrary: n)
     (auto simp: newDocs_Nil newDocs_Cons keyed_def sessionDocKey_def keyOf_def)

lemma newDocs_ids: "fst ` set (newDocs refs n ts) \<subseteq> range refs"
  by (auto simp: newDocs_def)

lemma replaceAll_closed:
  assumes "inj refs"
  shows "freshFrom refs n c \<Longrightarrow> keyed ts \<Longrightarrow> distinct (map keyOf ts) \<Longrightarrow>
         replaceAll refs n ts c
           = filter (\<lambda>x. sessionDocKey x \<notin> keyOf ` set ts) c @ newDocs refs n ts"
proof (induction ts arbitrary: n c)
  case Nil
  then show ?case by (simp add: newDocs_Nil)
next
  case (Cons t ts)
  obtain u d s where t: "t = (u, d, s)" by (cases t) auto
  have own: "sessionDocKey (refs n, s) = (u, d)"
    using Cons.prems(2) by (auto simp: keyed_def t sessionDocKey_def)
  have fresh: "refs n \<notin> docIds c" "distinct (map fst c)"
    using Cons.prems(1) by (auto simp: freshFrom_def)
  have notin: "(u, d) \<notin> keyOf ` set ts"
    using Cons.prems(3) by (auto simp: t keyOf_def)
  have step: "freshFrom refs (Suc n) (replaceSession u d (refs n) s c)"
    by (rule freshFrom_step [OF assms Cons.prems(1)])
  have "replaceAll refs n (t # ts) c
        = replaceAll refs (Suc n) ts (replaceSession u d (refs n) s c)"
    by (simp add: t)
  also have "\<dots> = filter (\<lambda>x. sessionDocKey x \<notin> keyOf ` set ts)
                      (replaceSession u d (refs n) s c) @ newDocs refs (Suc n) ts"
    using Cons.prems by (intro Cons.IH step) (auto simp: keyed_def)
  also have "filter (\<lambda>x. sessionDocKey x \<notin> keyOf ` set ts) (replaceSession u d (refs n) s c)
             = filter (\<lambda>x. sessionDocKey x \<notin> keyOf ` set (t # ts)) c @ [(refs n, s)]"
    using notin own
    by (auto simp: replaceSession_closed [OF fresh] t keyOf_def intro: filter_cong)
  finally show ?case by (simp add: newDocs_Cons t)
qed

lemma sort_key_Nil_iff: "sort_key f xs = [] \<longleftrightarrow> xs = []"
  by (metis length_0_conv length_sort)

lemma recomputedSession_wf:
  assumes "noBar u" "noBar d" "lst \<noteq> []"
  shows "\<exists>s. recomputedSession cfg um (sessionKey u d, lst) = Inr (u, d, s)
             \<and> ses_userId s = u \<and> ses_dateKey s = d"
proof -
  obtain l0 rest where sorted: "sort_key gl_scanTime lst = l0 # rest"
    using assms(3) sort_key_Nil_iff [of gl_scanTime lst] by (cases "sort_key gl_scanTime lst") auto
  show ?thesis
    unfolding recomputedSession_def
    by (cases "um u")
       (simp_all add: jsSplit_sessionKey [OF assms(1,2)] Let_def sorted ses_key_sessionDoc)
qed

lemma rangeGroups_entry:
  assumes "wellFormedKeys s e c" "x \<in> set (rangeGroups s e c)"
  shows "\<exists>l\<in>rangeLogs s e c. \<exists>ses.
           recomputedSession cfg um x = Inr (log_userId l, logDateKey l, ses)
           \<and> fst x = logKey l
           \<and> ses_userId ses = log_userId l \<and> ses_dateKey ses = logDateKey l"
proof -
  from assms(2) have "fst x \<in> logKey ` rangeLogs s e c"
    using rangeGroups_keys [of s e c] by (metis image_eqI)
  then obtain l where l: "l \<in> rangeLogs s e c" "fst x = logKey l" by auto
  have nb: "noBar (log_userId l)" "noBar (logDateKey l)"
    using assms(1) l(1) by (auto simp: wellFormedKeys_def)
  have ne: "snd x \<noteq> []" using assms(2) by (rule rangeGroups_nonempty)
  from recomputedSession_wf [OF nb ne, of cfg um]
  obtain ses where "recomputedSession cfg um (logKey l, snd x) = Inr (log_userId l, logDateKey l, ses)"
    "ses_userId ses = log_userId l" "ses_dateKey ses = logDateKey l"
    by (auto simp: logKey_def)
  moreover have "x = (logKey l, snd x)" using l(2) by (cases x) simp
  ultimately show ?thesis using l by metis
qed

lemma rangeSessions_results:
  assumes "wellFormedKeys s e c"
  shows "map (recomputedSession cfg um) (rangeGroups s e c)
         = map Inr (rangeSessions cfg um (rangeGroups s e c))"
  unfolding rangeSessions_def map_map
proof (rule map_cong [OF refl])
  fix x assume "x \<in> set (rangeGroups s e c)"
  from rangeGroups_entry [OF assms this, of cfg um]
  show "recomputedSession cfg um x = (Inr \<circ> (\<lambda>e. projr (recomputedSession cfg um e))) x"
    by auto
qed

lemma rangeSessions_keyed:
  assumes "wellFormedKeys s e c"
  shows "keyed (rangeSessions cfg um (rangeGroups s e c))"
  unfolding keyed_def rangeSessions_def
proof
  fix t assume "t \<in> set (map (\<lambda>e. projr (recomputedSession cfg um e)) (rangeGroups s e c))"
  then obtain x where x: "x \<in> set (rangeGroups s e c)" "t = projr (recomputedSession cfg um x)"
    by auto
  from rangeGroups_entry [OF assms x(1), of cfg um] x(2)
  show "ses_userId (snd (snd t)) = fst t \<and> ses_dateKey (snd (snd t)) = fst (snd t)"
    by auto
qed

lemma rangeSessions_key_of_entry:
  assumes "wellFormedKeys s e c" "x \<in> set (rangeGroups s e c)"
  shows "sessionKey (fst (keyOf (projr (recomputedSession cfg um x))))
           (snd (keyOf (projr (recomputedSession cfg um x)))) = fst x"
  using rangeGroups_entry [OF assms, of cfg um] by (auto simp: keyOf_def logKey_def)

lemma rangeSessions_distinct:
  assumes "wellFormedKeys s e c"
  shows "distinct (map keyOf (rangeSessions cfg um (rangeGroups s e c)))"
proof -
  let ?f = "\<lambda>x. keyOf (projr (recomputedSession cfg um x))"
  let ?g = "\<lambda>k. sessionKey (fst k) (snd k)"
  have "map ?g (map ?f (rangeGroups s e c)) = map fst (rangeGroups s e c)"
    unfolding map_map
    by (rule map_cong [OF refl]) (simp add: rangeSessions_key_of_entry [OF assms])
  then have "distinct (map ?g (map ?f (rangeGroups s e c)))"
    by (simp only: rangeGroups_distinct)
  then have "distinct (map ?f (rangeGroups s e c))"
    by (simp only: distinct_map)
  then show ?thesis by (simp add: rangeSessions_def comp_def)
qed

lemma rangeSessions_keys:
  assumes "wellFormedKeys s e c"
  shows "keyOf ` set (rangeSessions cfg um (rangeGroups s e c)) = keyPair ` rangeLogs s e c"
proof
  show "keyOf ` set (rangeSessions cfg um (rangeGroups s e c)) \<subseteq> keyPair ` rangeLogs s e c"
  proof
    fix k assume "k \<in> keyOf ` set (rangeSessions cfg um (rangeGroups s e c))"
    then obtain x where x: "x \<in> set (rangeGroups s e c)"
      "k = keyOf (projr (recomputedSession cfg um x))"
      by (auto simp: rangeSessions_def)
    from rangeGroups_entry [OF assms x(1), of cfg um] x(2)
    show "k \<in> keyPair ` rangeLogs s e c" by (auto simp: keyOf_def keyPair_def)
  qed
next
  show "keyPair ` rangeLogs s e c \<subseteq> keyOf ` set (rangeSessions cfg um (rangeGroups s e c))"
  proof
    fix k assume "k \<in> keyPair ` rangeLogs s e c"
    then obtain l where l: "l \<in> rangeLogs s e c" "k = keyPair l" by auto
    then have "logKey l \<in> fst ` set (rangeGroups s e c)"
      by (simp add: rangeGroups_keys)
    then obtain x where x: "x \<in> set (rangeGroups s e c)" "fst x = logKey l" by auto
    from rangeGroups_entry [OF assms x(1), of cfg um]
    obtain l' ses where l': "l' \<in> rangeLogs s e c"
      "recomputedSession cfg um x = Inr (log_userId l', logDateKey l', ses)" "fst x = logKey l'"
      by blast
    have "noBar (log_userId l)" "noBar (logDateKey l)" "noBar (log_userId l')" "noBar (logDateKey l')"
      using assms l(1) l'(1) by (auto simp: wellFormedKeys_def)
    then have "log_userId l = log_userId l' \<and> logDateKey l = logDateKey l'"
      using x(2) l'(3) by (intro sessionKey_inj) (auto simp: logKey_def)
    then have "k = keyOf (projr (recomputedSession cfg um x))"
      by (simp add: l(2) l'(2) keyOf_def keyPair_def)
    then show "k \<in> keyOf ` set (rangeSessions cfg um (rangeGroups s e c))"
      using x(1) by (auto simp: rangeSessions_def)
  qed
qed

lemma newDocs_map_fst: "map fst (newDocs refs n ts) = map refs [n ..< n + length ts]"
proof -
  have "map fst (newDocs refs n ts) = map (\<lambda>i. refs (n + i)) [0 ..< length ts]"
    by (simp add: newDocs_def comp_def)
  also have "\<dots> = map refs (map (\<lambda>i. n + i) [0 ..< length ts])" by (simp add: comp_def)
  also have "map (\<lambda>i. n + i) [0 ..< length ts] = [n ..< n + length ts]"
    by (induction ts) (simp_all add: add.commute)
  finally show ?thesis .
qed

lemma closed_form_fresh:
  assumes "inj refs" "inj refs'" "distinct (map fst c)" "range refs \<inter> docIds c = {}"
    "range refs' \<inter> (docIds c \<union> range refs) = {}"
  shows "freshFrom refs' m (filter P c @ newDocs refs n ts)"
proof -
  have d1: "distinct (map fst (filter P c))" using assms(3) by (simp add: distinct_map_filter)
  have d2: "distinct (map fst (newDocs refs n ts))"
    unfolding newDocs_map_fst using assms(1) by (simp add: distinct_map inj_on_def inj_def)
  have "fst ` set (filter P c) \<inter> fst ` set (newDocs refs n ts) = {}"
    using newDocs_ids [of refs n ts] assms(4) by (auto simp: docIds_def)
  then have "distinct (map fst (filter P c @ newDocs refs n ts))"
    using d1 d2 by simp
  moreover have "refs' k \<notin> docIds (filter P c @ newDocs refs n ts)" for k
  proof -
    have "refs' k \<notin> docIds c \<union> range refs" using assms(5) by blast
    moreover have "docIds (filter P c @ newDocs refs n ts) \<subseteq> docIds c \<union> range refs"
      using newDocs_ids [of refs n ts] by (auto simp: docIds_def)
    ultimately show ?thesis by blast
  qed
  ultimately show ?thesis by (simp add: freshFrom_def)
qed

lemma freshFrom_initial:
  "distinct (map fst c) \<Longrightarrow> range refs \<inter> docIds c = {} \<Longrightarrow> freshFrom refs n c"
  by (auto simp: freshFrom_def)

lemma filter_newDocs_own_keys:
  assumes "keyed ts"
  shows "filter (\<lambda>x. sessionDocKey x \<notin> keyOf ` set ts) (newDocs refs n ts) = []"
proof -
  have "sessionDocKey ` set (newDocs refs n ts) = keyOf ` set ts"
    using newDocs_keys [OF assms, of refs n] by (metis list.set_map)
  then show ?thesis by (auto simp: filter_empty_conv)
qed

lemma recompute_closed:
  assumes "wellFormedKeys s e (db_attendance db)" "inj refs"
    "distinct (map fst (db_attendanceSessions db))"
    "range refs \<inter> docIds (db_attendanceSessions db) = {}"
  shows "recomputeSessionsForRange refs s e users db =
           Inr (db\<lparr> db_attendanceSessions :=
                  filter (\<lambda>x. sessionDocKey x \<notin> keyPair ` rangeLogs s e (db_attendance db))
                    (db_attendanceSessions db)
                  @ newDocs refs 0 (rangeRun s e users db) \<rparr>)"
proof -
  let ?ts = "rangeRun s e users db"
  have loop: "recomputeLoop (getBufferSettings (db_settings db))
                (fold (\<lambda>userItem acc. acc(prof_uid userItem \<mapsto> userItem)) users Map.empty)
                refs 0 (rangeGroups s e (db_attendance db)) (db_attendanceSessions db)
              = Inr (replaceAll refs 0 ?ts (db_attendanceSessions db))"
    unfolding rangeRun_def
    by (rule recomputeLoop_replaceAll) (rule rangeSessions_results [OF assms(1)])
  have "replaceAll refs 0 ?ts (db_attendanceSessions db)
        = filter (\<lambda>x. sessionDocKey x \<notin> keyOf ` set ?ts) (db_attendanceSessions db)
          @ newDocs refs 0 ?ts"
    unfolding rangeRun_def
    by (intro replaceAll_closed assms(2) freshFrom_initial assms(3,4)
        rangeSessions_keyed [OF assms(1)] rangeSessions_distinct [OF assms(1)])
  moreover have "keyOf ` set ?ts = keyPair ` rangeLogs s e (db_attendance db)"
    unfolding rangeRun_def by (rule rangeSessions_keys [OF assms(1)])
  ultimately show ?thesis
    using loop by (simp add: recomputeSessionsForRange_def Let_def)
qed

lemma rangeRun_keyed: "wellFormedKeys s e (db_attendance db) \<Longrightarrow> keyed (rangeRun s e users db)"
  unfolding rangeRun_def by (rule rangeSessions_keyed)

lemma rangeRun_distinct:
  "wellFormedKeys s e (db_attendance db) \<Longrightarrow> distinct (map keyOf (rangeRun s e users db))"
  unfolding rangeRun_def by (rule rangeSessions_distinct)

lemma rangeRun_keys:
  "wellFormedKeys s e (db_attendance db) \<Longrightarrow>
     keyOf ` set (rangeRun s e users db) = keyPair ` rangeLogs s e (db_attendance db)"
  unfolding rangeRun_def by (rule rangeSessions_keys)

lemma distinct_filter_eq_one:
  "distinct ks \<Longrightarrow> k \<in> set ks \<Longrightarrow> length (filter (\<lambda>k'. k' = k) ks) = 1"
  by (induction ks) (auto simp: filter_empty_conv)

lemma count_in_newDocs:
  assumes "keyed ts" "distinct (map keyOf ts)" "k \<in> keyOf ` set ts"
  shows "length (filter (\<lambda>x. sessionDocKey x = k) (newDocs refs n ts)) = 1"
proof -
  have "length (filter (\<lambda>x. sessionDocKey x = k) (newDocs refs n ts))
        = length (filter (\<lambda>k'. k' = k) (map sessionDocKey (newDocs refs n ts)))"
    by (simp add: filter_map comp_def)
  also have "\<dots> = length (filter (\<lambda>k'. k' = k) (map keyOf ts))"
    by (simp only: newDocs_keys [OF assms(1)])
  also have "\<dots> = 1"
    using assms(2,3) by (intro distinct_filter_eq_one) auto
  finally show ?thesis .
qed

lemma recompute_exactly_one:
  assumes "wellFormedKeys s e (db_attendance db)" "inj refs"
    "distinct (map fst (db_attendanceSessions db))"
    "range refs \<inter> docIds (db_attendanceSessions db) = {}"
  shows "\<exists>db'. recomputeSessionsForRange refs s e users db = Inr db'
           \<and> (\<forall>l\<in>rangeLogs s e (db_attendance db).
                 length (sessionQuery (log_userId l) (logDateKey l) (db_attendanceSessions db')) = 1)"
proof -
  let ?K = "keyPair ` rangeLogs s e (db_attendance db)"
  let ?c' = "filter (\<lambda>x. sessionDocKey x \<notin> ?K) (db_attendanceSessions db)
             @ newDocs refs 0 (rangeRun s e users db)"
  have "length (sessionQuery (log_userId l) (logDateKey l) ?c') = 1"
    if l: "l \<in> rangeLogs s e (db_attendance db)" for l
  proof -
    have k: "keyPair l \<in> ?K" using l by simp
    then have "filter (\<lambda>x. sessionDocKey x = keyPair l)
                 (filter (\<lambda>x. sessionDocKey x \<notin> ?K) (db_attendanceSessions db)) = []"
      by (auto simp: filter_empty_conv)
    moreover have "length (filter (\<lambda>x. sessionDocKey x = keyPair l)
                     (newDocs refs 0 (rangeRun s e users db))) = 1"
      using k by (intro count_in_newDocs rangeRun_keyed rangeRun_distinct assms(1))
                 (simp add: rangeRun_keys [OF assms(1)])
    ultimately show ?thesis by (simp add: sessionQuery_conv keyPair_def)
  qed
  then show ?thesis by (simp add: recompute_closed [OF assms])
qed

lemma rebuild_sessions:
  "db_attendanceSessions (rebuildSessionsForDay (Some uid) (Some prof) ref dk db)
     = replaceSession uid dk ref (rebuiltSession uid prof dk db) (db_attendanceSessions db)"
  by (simp add: rebuildSessionsForDay_def)

lemma rebuiltSession_key:
  "ses_userId (rebuiltSession uid prof dk db) = uid"
  "ses_dateKey (rebuiltSession uid prof dk db) = dk"
  by (simp_all add: rebuiltSession_def Let_def ses_key_sessionDoc ownerOfProfile_def)

subsection \<open>A run among other writers\<close>

lemma replacementBatch_commit:
  assumes "ref \<notin> docIds c"
  shows "batchCommit (replacementBatch snapshot ref s) c
         = filter (\<lambda>x. fst x \<notin> docIds snapshot) c @ [(ref, s)]"
proof -
  have "ref \<notin> fst ` set (filter (\<lambda>x. fst x \<notin> fst ` set snapshot) c)"
    using assms by (auto simp: docIds_def)
  moreover have "batchCommit (replacementBatch snapshot ref s) c
      = batchCommit [BatchSet ref s] (filter (\<lambda>x. fst x \<notin> fst ` set snapshot) c)"
    by (simp add: replacementBatch_def batchCommit_append batchCommit_deletes)
  moreover have "\<And>c'. ref \<notin> fst ` set c' \<Longrightarrow> batchCommit [BatchSet ref s] c' = c' @ [(ref, s)]"
    by (simp add: batchCommit_def)
  ultimately show ?thesis by (simp add: docIds_def)
qed

lemma replaceSession_among_sessions:
  "db_attendanceSessions (replaceSession_among others n u d ref s db)
     = batchCommit
         (replacementBatch
            (sessionQuery u d (db_attendanceSessions (others (AwaitSessions n) db))) ref s)
         (db_attendanceSessions (others (AwaitCommit n) (others (AwaitSessions n) db)))"
  by (simp add: replaceSession_among_def Let_def)

lemma replaceSession_among_others:
  "db_attendance (replaceSession_among others n u d ref s db)
     = db_attendance (others (AwaitCommit n) (others (AwaitSessions n) db))"
  "db_sites (replaceSession_among others n u d ref s db)
     = db_sites (others (AwaitCommit n) (others (AwaitSessions n) db))"
  "db_settings (replaceSession_among others n u d ref s db)
     = db_settings (others (AwaitCommit n) (others (AwaitSessions n) db))"
  by (simp_all add: replaceSession_among_def Let_def)

lemma sessionQuery_filter:
  "sessionQuery u d (filter P c) = filter P (sessionQuery u d c)"
  by (auto simp: sessionQuery_def intro: filter_cong)

lemma sessionQuery_after_commit:
  assumes "ref \<notin> docIds cCommit" "ses_userId s = u" "ses_dateKey s = d"
  shows "sessionQuery u d (batchCommit (replacementBatch (sessionQuery u d cRead) ref s) cCommit)
         = unreadSessions u d cRead cCommit @ [(ref, s)]"
  using assms
  by (simp add: replacementBatch_commit sessionQuery_append sessionQuery_filter unreadSessions_def)
     (simp add: sessionQuery_def)

lemma replaceSession_among_own_key:
  assumes "ref \<notin> docIds (db_attendanceSessions (others (AwaitCommit n) (others (AwaitSessions n) db)))"
    "ses_userId s = u" "ses_dateKey s = d"
  shows "sessionQuery u d (db_attendanceSessions (replaceSession_among others n u d ref s db))
         = unreadSessions u d (db_attendanceSessions (others (AwaitSessions n) db))
             (db_attendanceSessions (others (AwaitCommit n) (others (AwaitSessions n) db)))
           @ [(ref, s)]"
  unfolding replaceSession_among_sessions by (rule sessionQuery_after_commit [OF assms])

lemma recomputedSession_key:
  assumes "recomputedSession cfg um entry = Inr (u, d, s)"
  shows "ses_userId s = u \<and> ses_dateKey s = d"
  using assms
  by (auto simp: recomputedSession_def Let_def ses_key_sessionDoc
      split: list.splits option.splits)

text \<open>With nobody else writing, the runs are those of the sequential definitions.\<close>

lemma replaceSession_nobodyElse:
  "replaceSession_among nobodyElse n u d ref s db
     = db\<lparr> db_attendanceSessions := replaceSession u d ref s (db_attendanceSessions db) \<rparr>"
  by (simp add: replaceSession_among_def nobodyElse_def replaceSession_def replacementBatch_def Let_def)

lemma rebuild_nobodyElse:
  "rebuildSessionsForDay_among nobodyElse user profile ref dk db
     = rebuildSessionsForDay user profile ref dk db"
  by (simp add: rebuildSessionsForDay_among_def rebuildSessionsForDay_def replaceSession_nobodyElse
      nobodyElse_def split: option.splits)

lemma replaceSession_among_quiet:
  assumes "quietOnSessions others"
  shows "db_attendanceSessions (replaceSession_among others n u d ref s db)
         = replaceSession u d ref s (db_attendanceSessions db)"
  using assms
  by (simp add: replaceSession_among_sessions quietOnSessions_def replaceSession_def
      replacementBatch_def Let_def)

lemma recomputeLoop_among_quiet:
  assumes "quietOnSessions others"
  shows "map_sum id db_attendanceSessions (recomputeLoop_among others cfg um refs n g db)
         = recomputeLoop cfg um refs n g (db_attendanceSessions db)"
proof (induction g arbitrary: n db)
  case Nil
  then show ?case by simp
next
  case (Cons entry rest)
  show ?case
  proof (cases "recomputedSession cfg um entry")
    case (Inl e)
    then show ?thesis by simp
  next
    case (Inr t)
    obtain u d s where t: "t = (u, d, s)" by (cases t) auto
    have "map_sum id db_attendanceSessions
            (recomputeLoop_among others cfg um refs (Suc n) rest
               (replaceSession_among others n u d (refs n) s db))
          = recomputeLoop cfg um refs (Suc n) rest
              (db_attendanceSessions (replaceSession_among others n u d (refs n) s db))"
      by (rule Cons.IH)
    then show ?thesis
      by (simp add: Inr t replaceSession_among_quiet [OF assms] id_def)
  qed
qed

lemma recompute_among_quiet:
  assumes "quietOnSessions others"
  shows "map_sum id db_attendanceSessions (recomputeSessionsForRange_among others refs s e users db)
         = map_sum id db_attendanceSessions
             (recomputeSessionsForRange refs s e users
                ((rangeLogsStore others db)\<lparr> db_settings := db_settings (others AwaitSettings db) \<rparr>))"
proof -
  let ?dbX = "(rangeLogsStore others db)\<lparr> db_settings := db_settings (others AwaitSettings db) \<rparr>"
  have "map_sum id db_attendanceSessions (recomputeSessionsForRange refs s e users ?dbX)
        = recomputeLoop (getBufferSettings (db_settings (others AwaitSettings db)))
            (fold (\<lambda>userItem acc. acc(prof_uid userItem \<mapsto> userItem)) users Map.empty) refs 0
            (rangeGroups s e (db_attendance (rangeLogsStore others db)))
            (db_attendanceSessions (rangeLogsStore others db))"
    by (simp add: recomputeSessionsForRange_def Let_def split: sum.splits)
  then show ?thesis
    by (simp add: recomputeSessionsForRange_among_def Let_def rangeLogsStore_def
        recomputeLoop_among_quiet [OF assms])
qed

lemma recompute_among_exactly_one:
  assumes "quietOnSessions others"
    "wellFormedKeys s e (db_attendance (rangeLogsStore others db))" "inj refs"
    "distinct (map fst (db_attendanceSessions db))"
    "range refs \<inter> docIds (db_attendanceSessions db) = {}"
  shows "\<exists>db'. recomputeSessionsForRange_among others refs s e users db = Inr db'
           \<and> (\<forall>l\<in>rangeLogs s e (db_attendance (rangeLogsStore others db)).
                 length (sessionQuery (log_userId l) (logDateKey l) (db_attendanceSessions db')) = 1)"
proof -
  let ?dbX = "(rangeLogsStore others db)\<lparr> db_settings := db_settings (others AwaitSettings db) \<rparr>"
  have same: "db_attendanceSessions ?dbX = db_attendanceSessions db"
    using assms(1) by (simp add: quietOnSessions_def rangeLogsStore_def)
  from recompute_exactly_one [of s e ?dbX refs users] assms(2-5) same
  obtain dbS where dbS: "recomputeSessionsForRange refs s e users ?dbX = Inr dbS"
    "\<forall>l\<in>rangeLogs s e (db_attendance (rangeLogsStore others db)).
        length (sessionQuery (log_userId l) (logDateKey l) (db_attendanceSessions dbS)) = 1"
    by auto
  from recompute_among_quiet [OF assms(1), of refs s e users db] dbS(1)
  obtain db' where "recomputeSessionsForRange_among others refs s e users db = Inr db'"
    "db_attendanceSessions db' = db_attendanceSessions dbS"
    by (cases "recomputeSessionsForRange_among others refs s e users db") auto
  with dbS(2) show ?thesis by simp
qed

lemma rebuild_among_sessions:
  "db_attendanceSessions (rebuildSessionsForDay_among others (Some uid) (Some prof) ref dk db)
     = batchCommit
         (replacementBatch
            (sessionQuery uid dk (db_attendanceSessions (rebuildReadStore others db))) ref
            (rebuiltSession uid prof dk
               ((others AwaitLogs db)\<lparr> db_settings :=
                    db_settings (others AwaitSettings (others AwaitLogs db)) \<rparr>)))
         (db_attendanceSessions (rebuildCommitStore others db))"
  by (simp add: rebuildSessionsForDay_among_def Let_def replaceSession_among_sessions
      rebuildReadStore_def rebuildCommitStore_def)

lemma rebuild_among_others:
  "db_attendance (rebuildSessionsForDay_among others (Some uid) (Some prof) ref dk db)
     = db_attendance (rebuildCommitStore others db)"
  "db_sites (rebuildSessionsForDay_among others (Some uid) (Some prof) ref dk db)
     = db_sites (rebuildCommitStore others db)"
  "db_settings (rebuildSessionsForDay_among others (Some uid) (Some prof) ref dk db)
     = db_settings (rebuildCommitStore others db)"
  by (simp_all add: rebuildSessionsForDay_among_def Let_def replaceSession_among_others
      rebuildReadStore_def rebuildCommitStore_def)

subsection \<open>One session per key\<close>

text \<open>
  C1, amended.  After a completed run for a key (a per-scan rebuild, or the iteration of
  the range recompute for the key) the store holds for that key the session the run has
  written and, beside it, exactly the sessions of the key that were in the store when the
  batch committed and that the run had not read; so the key has exactly one session if
  and only if no other writer has added one between the run's read and its commit,
  whatever the key held before.  The replacement is one batch: the store at the commit
  loses every session the run had read and gains the new one in the same step.  At the
  end of a range recompute during which nobody else writes sessions, every key it has
  grouped has exactly one session.  (Generated references are fresh; for the whole range
  run they are pairwise different, document ids are distinct and keys are without the
  separator \<open>|\<close>.)
\<close>

theorem C1_one_session_unless_overlap:
  "(ref \<notin> docIds (db_attendanceSessions (rebuildCommitStore others db)) \<longrightarrow>
      (\<exists>session.
          ses_userId session = uid \<and> ses_dateKey session = dk
          \<and> db_attendanceSessions
               (rebuildSessionsForDay_among others (Some uid) (Some prof) ref dk db)
             = filter (\<lambda>x. fst x \<notin> docIds (sessionQuery uid dk
                                          (db_attendanceSessions (rebuildReadStore others db))))
                 (db_attendanceSessions (rebuildCommitStore others db))
               @ [(ref, session)]
          \<and> sessionQuery uid dk
               (db_attendanceSessions
                  (rebuildSessionsForDay_among others (Some uid) (Some prof) ref dk db))
             = unreadSessions uid dk (db_attendanceSessions (rebuildReadStore others db))
                 (db_attendanceSessions (rebuildCommitStore others db))
               @ [(ref, session)])
      \<and> (length (sessionQuery uid dk
             (db_attendanceSessions
                (rebuildSessionsForDay_among others (Some uid) (Some prof) ref dk db))) = 1
           \<longleftrightarrow> unreadSessions uid dk (db_attendanceSessions (rebuildReadStore others db))
                 (db_attendanceSessions (rebuildCommitStore others db)) = []))
   \<and> (recomputedSession cfg userMap entry = Inr (u, d, ses)
        \<and> refs n \<notin> docIds (db_attendanceSessions
                             (others (AwaitCommit n) (others (AwaitSessions n) db))) \<longrightarrow>
      recomputeLoop_among others cfg userMap refs n (entry # rest) db
        = recomputeLoop_among others cfg userMap refs (Suc n) rest
            (replaceSession_among others n u d (refs n) ses db)
      \<and> db_attendanceSessions (replaceSession_among others n u d (refs n) ses db)
          = filter (\<lambda>x. fst x \<notin> docIds (sessionQuery u d
                                       (db_attendanceSessions (others (AwaitSessions n) db))))
              (db_attendanceSessions (others (AwaitCommit n) (others (AwaitSessions n) db)))
            @ [(refs n, ses)]
      \<and> sessionQuery u d
            (db_attendanceSessions (replaceSession_among others n u d (refs n) ses db))
          = unreadSessions u d (db_attendanceSessions (others (AwaitSessions n) db))
              (db_attendanceSessions (others (AwaitCommit n) (others (AwaitSessions n) db)))
            @ [(refs n, ses)]
      \<and> (length (sessionQuery u d
             (db_attendanceSessions (replaceSession_among others n u d (refs n) ses db))) = 1
           \<longleftrightarrow> unreadSessions u d (db_attendanceSessions (others (AwaitSessions n) db))
                 (db_attendanceSessions (others (AwaitCommit n) (others (AwaitSessions n) db)))
               = []))
   \<and> (quietOnSessions others
        \<and> wellFormedKeys s e (db_attendance (rangeLogsStore others db)) \<and> inj refs
        \<and> distinct (map fst (db_attendanceSessions db))
        \<and> range refs \<inter> docIds (db_attendanceSessions db) = {} \<longrightarrow>
      (\<exists>db'. recomputeSessionsForRange_among others refs s e users db = Inr db'
         \<and> (\<forall>l\<in>rangeLogs s e (db_attendance (rangeLogsStore others db)).
               length (sessionQuery (log_userId l) (logDateKey l) (db_attendanceSessions db'))
                 = 1)))"
proof -
  let ?session = "rebuiltSession uid prof dk
               ((others AwaitLogs db)\<lparr> db_settings :=
                    db_settings (others AwaitSettings (others AwaitLogs db)) \<rparr>)"
  let ?after = "db_attendanceSessions
                  (rebuildSessionsForDay_among others (Some uid) (Some prof) ref dk db)"
  let ?unread = "unreadSessions uid dk (db_attendanceSessions (rebuildReadStore others db))
                   (db_attendanceSessions (rebuildCommitStore others db))"
  have key: "ses_userId ?session = uid" "ses_dateKey ?session = dk"
    by (rule rebuiltSession_key)+
  have a: "(\<exists>session.
          ses_userId session = uid \<and> ses_dateKey session = dk
          \<and> ?after
             = filter (\<lambda>x. fst x \<notin> docIds (sessionQuery uid dk
                                          (db_attendanceSessions (rebuildReadStore others db))))
                 (db_attendanceSessions (rebuildCommitStore others db))
               @ [(ref, session)]
          \<and> sessionQuery uid dk ?after = ?unread @ [(ref, session)])
      \<and> (length (sessionQuery uid dk ?after) = 1 \<longleftrightarrow> ?unread = [])"
    if fresh: "ref \<notin> docIds (db_attendanceSessions (rebuildCommitStore others db))"
  proof -
    have store: "?after
             = filter (\<lambda>x. fst x \<notin> docIds (sessionQuery uid dk
                                          (db_attendanceSessions (rebuildReadStore others db))))
                 (db_attendanceSessions (rebuildCommitStore others db))
               @ [(ref, ?session)]"
      by (simp add: rebuild_among_sessions replacementBatch_commit [OF fresh])
    have own: "sessionQuery uid dk ?after = ?unread @ [(ref, ?session)]"
      by (simp add: rebuild_among_sessions sessionQuery_after_commit [OF fresh key])
    have one: "length (sessionQuery uid dk ?after) = 1 \<longleftrightarrow> ?unread = []"
      by (simp add: own)
    show ?thesis using key store own one by blast
  qed
  let ?afterk = "db_attendanceSessions (replaceSession_among others n u d (refs n) ses db)"
  let ?unreadk = "unreadSessions u d (db_attendanceSessions (others (AwaitSessions n) db))
              (db_attendanceSessions (others (AwaitCommit n) (others (AwaitSessions n) db)))"
  have c: "recomputeLoop_among others cfg userMap refs n (entry # rest) db
        = recomputeLoop_among others cfg userMap refs (Suc n) rest
            (replaceSession_among others n u d (refs n) ses db)
      \<and> ?afterk
          = filter (\<lambda>x. fst x \<notin> docIds (sessionQuery u d
                                       (db_attendanceSessions (others (AwaitSessions n) db))))
              (db_attendanceSessions (others (AwaitCommit n) (others (AwaitSessions n) db)))
            @ [(refs n, ses)]
      \<and> sessionQuery u d ?afterk = ?unreadk @ [(refs n, ses)]
      \<and> (length (sessionQuery u d ?afterk) = 1 \<longleftrightarrow> ?unreadk = [])"
    if built: "recomputedSession cfg userMap entry = Inr (u, d, ses)"
      and fresh: "refs n \<notin> docIds (db_attendanceSessions
                             (others (AwaitCommit n) (others (AwaitSessions n) db)))"
  proof -
    from recomputedSession_key [OF built] have k: "ses_userId ses = u" "ses_dateKey ses = d"
      by simp_all
    have own: "sessionQuery u d ?afterk = ?unreadk @ [(refs n, ses)]"
      using fresh k by (rule replaceSession_among_own_key)
    have store: "?afterk
          = filter (\<lambda>x. fst x \<notin> docIds (sessionQuery u d
                                       (db_attendanceSessions (others (AwaitSessions n) db))))
              (db_attendanceSessions (others (AwaitCommit n) (others (AwaitSessions n) db)))
            @ [(refs n, ses)]"
      by (simp add: replaceSession_among_sessions replacementBatch_commit [OF fresh])
    have one: "length (sessionQuery u d ?afterk) = 1 \<longleftrightarrow> ?unreadk = []"
      by (simp add: own)
    have unfold: "recomputeLoop_among others cfg userMap refs n (entry # rest) db
        = recomputeLoop_among others cfg userMap refs (Suc n) rest
            (replaceSession_among others n u d (refs n) ses db)"
      by (simp add: built)
    show ?thesis using unfold store own one by blast
  qed
  show ?thesis
    using a c recompute_among_exactly_one [of others s e db refs users] by blast
qed

subsection \<open>Running twice\<close>

lemma rebuiltSession_reads:
  "db_attendance db' = db_attendance db \<Longrightarrow> db_settings db' = db_settings db \<Longrightarrow>
     rebuiltSession uid prof dk db' = rebuiltSession uid prof dk db"
  by (simp add: rebuiltSession_def)

lemma rangeRun_reads:
  "db_attendance db' = db_attendance db \<Longrightarrow> db_settings db' = db_settings db \<Longrightarrow>
     rangeRun s e users db' = rangeRun s e users db"
  by (simp add: rangeRun_def)

lemma rebuild_other_collections:
  "db_attendance (rebuildSessionsForDay user profile ref dk db) = db_attendance db"
  "db_sites (rebuildSessionsForDay user profile ref dk db) = db_sites db"
  "db_settings (rebuildSessionsForDay user profile ref dk db) = db_settings db"
  by (simp_all add: rebuildSessionsForDay_def split: option.splits)

lemma rebuild_twice:
  assumes "distinct (map fst (db_attendanceSessions db))"
    "ref1 \<notin> docIds (db_attendanceSessions db)" "ref2 \<notin> docIds (db_attendanceSessions db)"
    "ref1 \<noteq> ref2"
  shows "map snd (db_attendanceSessions
            (rebuildSessionsForDay (Some uid) (Some prof) ref2 dk
               (rebuildSessionsForDay (Some uid) (Some prof) ref1 dk db)))
         = map snd (db_attendanceSessions (rebuildSessionsForDay (Some uid) (Some prof) ref1 dk db))"
proof -
  let ?c = "db_attendanceSessions db"
  let ?db1 = "rebuildSessionsForDay (Some uid) (Some prof) ref1 dk db"
  let ?s = "rebuiltSession uid prof dk db"
  let ?keep = "filter (\<lambda>x. sessionDocKey x \<noteq> (uid, dk)) ?c"
  have c1: "db_attendanceSessions ?db1 = ?keep @ [(ref1, ?s)]"
    by (simp add: rebuild_sessions replaceSession_closed [OF assms(2,1)])
  have s1: "rebuiltSession uid prof dk ?db1 = ?s"
    by (rule rebuiltSession_reads) (simp_all add: rebuild_other_collections)
  have fresh2: "ref2 \<notin> docIds (?keep @ [(ref1, ?s)])"
    using assms(3,4) by (auto simp: docIds_def)
  have dist1: "distinct (map fst (?keep @ [(ref1, ?s)]))"
    using assms(1,2) by (auto simp: docIds_def distinct_map_filter)
  have own: "sessionDocKey (ref1, ?s) = (uid, dk)"
    by (simp add: sessionDocKey_def rebuiltSession_key)
  have "db_attendanceSessions (rebuildSessionsForDay (Some uid) (Some prof) ref2 dk ?db1)
        = filter (\<lambda>x. sessionDocKey x \<noteq> (uid, dk)) (?keep @ [(ref1, ?s)]) @ [(ref2, ?s)]"
    by (simp add: rebuild_sessions [of uid prof ref2 dk ?db1] s1 c1
        replaceSession_closed [OF fresh2 dist1])
  also have "\<dots> = ?keep @ [(ref2, ?s)]"
    using own by simp
  finally show ?thesis by (simp add: c1)
qed

lemma recompute_twice:
  assumes "wellFormedKeys s e (db_attendance db)" "inj refs1" "inj refs2"
    "distinct (map fst (db_attendanceSessions db))"
    "range refs1 \<inter> docIds (db_attendanceSessions db) = {}"
    "range refs2 \<inter> (docIds (db_attendanceSessions db) \<union> range refs1) = {}"
  shows "\<exists>db1 db2. recomputeSessionsForRange refs1 s e users db = Inr db1
           \<and> recomputeSessionsForRange refs2 s e users db1 = Inr db2
           \<and> rangeRun s e users db1 = rangeRun s e users db
           \<and> map snd (db_attendanceSessions db2) = map snd (db_attendanceSessions db1)
           \<and> db_attendance db2 = db_attendance db1 \<and> db_sites db2 = db_sites db1
           \<and> db_settings db2 = db_settings db1"
proof -
  let ?c = "db_attendanceSessions db"
  let ?K = "keyPair ` rangeLogs s e (db_attendance db)"
  let ?ts = "rangeRun s e users db"
  let ?keep = "filter (\<lambda>x. sessionDocKey x \<notin> ?K) ?c"
  let ?db1 = "db\<lparr> db_attendanceSessions := ?keep @ newDocs refs1 0 ?ts \<rparr>"
  have run1: "recomputeSessionsForRange refs1 s e users db = Inr ?db1"
    by (rule recompute_closed [OF assms(1,2,4,5)])
  have ts1: "rangeRun s e users ?db1 = ?ts" by (rule rangeRun_reads) simp_all
  have fresh: "freshFrom refs2 0 (?keep @ newDocs refs1 0 ?ts)"
    by (rule closed_form_fresh [OF assms(2,3,4,5,6)])
  have run2: "recomputeSessionsForRange refs2 s e users ?db1
        = Inr (?db1\<lparr> db_attendanceSessions :=
                 filter (\<lambda>x. sessionDocKey x \<notin> ?K) (?keep @ newDocs refs1 0 ?ts)
                 @ newDocs refs2 0 ?ts \<rparr>)"
  proof -
    have wf1: "wellFormedKeys s e (db_attendance ?db1)" using assms(1) by simp
    have d1: "distinct (map fst (db_attendanceSessions ?db1))"
      using fresh by (simp add: freshFrom_def)
    have f1: "range refs2 \<inter> docIds (db_attendanceSessions ?db1) = {}"
      using fresh by (auto simp: freshFrom_def)
    show ?thesis
      using recompute_closed [OF wf1 assms(3) d1 f1, of users] by (simp add: ts1)
  qed
  have "filter (\<lambda>x. sessionDocKey x \<notin> ?K) (newDocs refs1 0 ?ts) = []"
    using filter_newDocs_own_keys [OF rangeRun_keyed [OF assms(1)], of users refs1 0]
    by (simp add: rangeRun_keys [OF assms(1)])
  then have "map snd (filter (\<lambda>x. sessionDocKey x \<notin> ?K) (?keep @ newDocs refs1 0 ?ts)
                      @ newDocs refs2 0 ?ts)
             = map snd (?keep @ newDocs refs1 0 ?ts)"
    by (simp add: newDocs_values)
  then show ?thesis using run1 run2 ts1 by simp
qed

text \<open>
  C6.  A second run on unchanged logs, settings and users builds the same session as
  the first, and leaves the same sessions in the store as the first run did (the
  generated document ids apart) and every other collection untouched: for the per-scan
  rebuild and for the range recompute.
\<close>

theorem C6_idempotent:
  "(distinct (map fst (db_attendanceSessions db))
      \<and> ref1 \<notin> docIds (db_attendanceSessions db) \<and> ref2 \<notin> docIds (db_attendanceSessions db)
      \<and> ref1 \<noteq> ref2 \<longrightarrow>
      rebuiltSession uid prof dk (rebuildSessionsForDay (Some uid) (Some prof) ref1 dk db)
        = rebuiltSession uid prof dk db
      \<and> map snd (db_attendanceSessions
            (rebuildSessionsForDay (Some uid) (Some prof) ref2 dk
               (rebuildSessionsForDay (Some uid) (Some prof) ref1 dk db)))
        = map snd (db_attendanceSessions (rebuildSessionsForDay (Some uid) (Some prof) ref1 dk db))
      \<and> db_attendance (rebuildSessionsForDay (Some uid) (Some prof) ref1 dk db) = db_attendance db
      \<and> db_sites (rebuildSessionsForDay (Some uid) (Some prof) ref1 dk db) = db_sites db
      \<and> db_settings (rebuildSessionsForDay (Some uid) (Some prof) ref1 dk db) = db_settings db)
   \<and> (wellFormedKeys s e (db_attendance db) \<and> inj refs1 \<and> inj refs2
        \<and> distinct (map fst (db_attendanceSessions db))
        \<and> range refs1 \<inter> docIds (db_attendanceSessions db) = {}
        \<and> range refs2 \<inter> (docIds (db_attendanceSessions db) \<union> range refs1) = {} \<longrightarrow>
      (\<exists>db1 db2. recomputeSessionsForRange refs1 s e users db = Inr db1
           \<and> recomputeSessionsForRange refs2 s e users db1 = Inr db2
           \<and> rangeRun s e users db1 = rangeRun s e users db
           \<and> map snd (db_attendanceSessions db2) = map snd (db_attendanceSessions db1)
           \<and> db_attendance db2 = db_attendance db1 \<and> db_sites db2 = db_sites db1
           \<and> db_settings db2 = db_settings db1))"
proof -
  have reads: "rebuiltSession uid prof dk (rebuildSessionsForDay (Some uid) (Some prof) ref1 dk db)
        = rebuiltSession uid prof dk db"
    by (rule rebuiltSession_reads) (simp_all add: rebuild_other_collections)
  show ?thesis
    using reads rebuild_twice [of db ref1 ref2 uid prof dk]
      recompute_twice [of s e db refs1 refs2 users]
    by (simp add: rebuild_other_collections)
qed

subsection \<open>The example store\<close>

lemma ex_refs_inj: "inj ex_refs" "inj ex_refs2"
  by (simp_all add: inj_def ex_refs_def ex_refs2_def)

lemma ex_db_sessions_ids:
  "docIds (db_attendanceSessions ex_db) = {''s1'', ''s2'', ''s3''}"
  "distinct (map fst (db_attendanceSessions ex_db))"
  by (auto simp: docIds_def ex_db_def)

lemma ex_refs_fresh:
  "range ex_refs \<inter> docIds (db_attendanceSessions ex_db) = {}"
  "range ex_refs2 \<inter> (docIds (db_attendanceSessions ex_db) \<union> range ex_refs) = {}"
  by (auto simp: ex_db_sessions_ids ex_refs_def ex_refs2_def)

lemma ex_db_rangeLogs:
  "rangeLogs (ex_at 0 0) (ex_at 23 59) (db_attendance ex_db)
     = {ex_log (ex_at 7 55) (Some CheckIn) False, ex_log (ex_at 17 3) (Some CheckOut) False}"
  by (auto simp: rangeLogs_def ex_db_def ex_log_def ex_at_def isDeleted_def)

lemma ex_log_key:
  "log_userId (ex_log t kind deleted) = ''u1''"
  "logDateKey (ex_log t kind deleted) = ''2024-03-01''"
  by (simp_all add: ex_log_def logDateKey_def)

lemma ex_db_wellFormed: "wellFormedKeys (ex_at 0 0) (ex_at 23 59) (db_attendance ex_db)"
  by (simp add: wellFormedKeys_def ex_db_rangeLogs ex_log_key noBar_def)

lemma ex_stale_key:
  "ses_userId (ex_stale dk) = ''u1''" "ses_dateKey (ex_stale dk) = dk"
  by (simp_all add: ex_stale_def ses_key_sessionDoc ex_owner_def)

lemma unreadSessions_same: "unreadSessions u d c c = []"
  by (auto simp: unreadSessions_def docIds_def filter_empty_conv)

lemma nobodyElse_stores:
  "rebuildReadStore nobodyElse db = db" "rebuildCommitStore nobodyElse db = db"
  "rangeLogsStore nobodyElse db = db" "quietOnSessions nobodyElse"
  by (simp_all add: rebuildReadStore_def rebuildCommitStore_def rangeLogsStore_def nobodyElse_def
      quietOnSessions_def)

lemma recompute_nobodyElse:
  "recomputeSessionsForRange_among nobodyElse refs s e users db
     = recomputeSessionsForRange refs s e users db"
proof -
  have loop: "recomputeLoop_among nobodyElse cfg um refs n g x
        = (case recomputeLoop cfg um refs n g (db_attendanceSessions x) of
             Inl err \<Rightarrow> Inl err
           | Inr c \<Rightarrow> Inr (x\<lparr> db_attendanceSessions := c \<rparr>))" for cfg um n g x
  proof (induction g arbitrary: n x)
    case Nil
    then show ?case by simp
  next
    case (Cons entry rest)
    show ?case
    proof (cases "recomputedSession cfg um entry")
      case (Inl err)
      then show ?thesis by simp
    next
      case (Inr t)
      obtain u d ses where t: "t = (u, d, ses)" by (cases t) auto
      show ?thesis
        by (simp add: Inr t Cons.IH replaceSession_nobodyElse split: sum.splits)
    qed
  qed
  show ?thesis
    by (simp add: recomputeSessionsForRange_among_def recomputeSessionsForRange_def Let_def loop
        nobodyElse_def)
qed

theorem C1_one_session_unless_overlap_witness:
  "length (sessionQuery ''u1'' ''2024-03-01'' (db_attendanceSessions ex_db)) = 2
   \<and> length (sessionQuery ''u1'' ''2024-03-01''
        (db_attendanceSessions
           (rebuildSessionsForDay_among nobodyElse (Some ''u1'') (Some ex_profile) ''n''
              ''2024-03-01'' ex_db))) = 1
   \<and> (\<exists>ses. recomputedSession DEFAULT_BUFFER_SETTINGS Map.empty
               (sessionKey ''u1'' ''2024-03-01'',
                [toGrouped (ex_log (ex_at 7 55) (Some CheckIn) False)])
             = Inr (''u1'', ''2024-03-01'', ses)
           \<and> length (sessionQuery ''u1'' ''2024-03-01''
                (db_attendanceSessions
                   (replaceSession_among nobodyElse 0 ''u1'' ''2024-03-01'' (ex_refs 0) ses
                      ex_db))) = 1)
   \<and> (\<exists>db'. recomputeSessionsForRange_among nobodyElse ex_refs (ex_at 0 0) (ex_at 23 59)
               [ex_profile] ex_db = Inr db'
          \<and> length (sessionQuery ''u1'' ''2024-03-01'' (db_attendanceSessions db')) = 1)"
proof -
  have before: "length (sessionQuery ''u1'' ''2024-03-01'' (db_attendanceSessions ex_db)) = 2"
    by (simp add: sessionQuery_def ex_db_def ex_stale_key)
  have fresh: "''n'' \<notin> docIds (db_attendanceSessions (rebuildCommitStore nobodyElse ex_db))"
    by (simp add: nobodyElse_stores ex_db_sessions_ids)
  from recomputedSession_wf [of "''u1''" "''2024-03-01''"
      "[toGrouped (ex_log (ex_at 7 55) (Some CheckIn) False)]" DEFAULT_BUFFER_SETTINGS Map.empty]
  obtain ses where built: "recomputedSession DEFAULT_BUFFER_SETTINGS Map.empty
               (sessionKey ''u1'' ''2024-03-01'',
                [toGrouped (ex_log (ex_at 7 55) (Some CheckIn) False)])
             = Inr (''u1'', ''2024-03-01'', ses)"
    by (auto simp: noBar_def)
  have fresh0: "ex_refs 0 \<notin> docIds (db_attendanceSessions
                   (nobodyElse (AwaitCommit 0) (nobodyElse (AwaitSessions 0) ex_db)))"
    by (simp add: nobodyElse_def ex_db_sessions_ids ex_refs_def)
  have hyps: "quietOnSessions nobodyElse
        \<and> wellFormedKeys (ex_at 0 0) (ex_at 23 59) (db_attendance (rangeLogsStore nobodyElse ex_db))
        \<and> inj ex_refs \<and> distinct (map fst (db_attendanceSessions ex_db))
        \<and> range ex_refs \<inter> docIds (db_attendanceSessions ex_db) = {}"
    unfolding nobodyElse_stores(3)
    by (intro conjI nobodyElse_stores(4) ex_db_wellFormed ex_refs_inj ex_db_sessions_ids(2)
        ex_refs_fresh)
  have mem: "ex_log (ex_at 7 55) (Some CheckIn) False
               \<in> rangeLogs (ex_at 0 0) (ex_at 23 59) (db_attendance (rangeLogsStore nobodyElse ex_db))"
    by (simp add: ex_db_rangeLogs nobodyElse_stores)
  note inst = C1_one_session_unless_overlap [where ref = "''n''" and others = nobodyElse
      and db = ex_db and uid = "''u1''" and dk = "''2024-03-01''" and prof = ex_profile
      and cfg = DEFAULT_BUFFER_SETTINGS and userMap = Map.empty
      and entry = "(sessionKey ''u1'' ''2024-03-01'',
                    [toGrouped (ex_log (ex_at 7 55) (Some CheckIn) False)])"
      and u = "''u1''" and d = "''2024-03-01''" and ses = ses and refs = ex_refs and n = 0
      and rest = "[]" and s = "ex_at 0 0" and e = "ex_at 23 59" and users = "[ex_profile]"]
  have rebuilt: "length (sessionQuery ''u1'' ''2024-03-01''
        (db_attendanceSessions
           (rebuildSessionsForDay_among nobodyElse (Some ''u1'') (Some ex_profile) ''n''
              ''2024-03-01'' ex_db))) = 1"
    using inst [THEN conjunct1, THEN mp, OF fresh, THEN conjunct2]
    by (simp add: nobodyElse_stores unreadSessions_same)
  have iter: "length (sessionQuery ''u1'' ''2024-03-01''
                (db_attendanceSessions
                   (replaceSession_among nobodyElse 0 ''u1'' ''2024-03-01'' (ex_refs 0) ses
                      ex_db))) = 1"
    using inst [THEN conjunct2, THEN conjunct1, THEN mp, OF conjI [OF built fresh0],
        THEN conjunct2, THEN conjunct2, THEN conjunct2]
    by (simp add: nobodyElse_def unreadSessions_same)
  from inst [THEN conjunct2, THEN conjunct2, THEN mp, OF hyps]
  obtain db' where db': "recomputeSessionsForRange_among nobodyElse ex_refs (ex_at 0 0)
        (ex_at 23 59) [ex_profile] ex_db = Inr db'"
    "\<forall>l\<in>rangeLogs (ex_at 0 0) (ex_at 23 59) (db_attendance (rangeLogsStore nobodyElse ex_db)).
        length (sessionQuery (log_userId l) (logDateKey l) (db_attendanceSessions db')) = 1"
    by blast
  from db'(2) [rule_format, OF mem]
  have "length (sessionQuery ''u1'' ''2024-03-01'' (db_attendanceSessions db')) = 1"
    by (simp add: ex_log_key)
  with db'(1) have whole: "\<exists>db'. recomputeSessionsForRange_among nobodyElse ex_refs (ex_at 0 0)
        (ex_at 23 59) [ex_profile] ex_db = Inr db'
          \<and> length (sessionQuery ''u1'' ''2024-03-01'' (db_attendanceSessions db')) = 1"
    by blast
  show ?thesis using before rebuilt iter whole built by blast
qed

text \<open>
  The claim as written, exactly one session after every completed run, fails when two
  runs for the key overlap.  While this rebuild waits for its commit, a rebuild for the
  same key from another device reads the same two sessions and commits; this run's batch
  then deletes the two sessions it read, which are gone already, and adds its own.  Both
  runs have completed and the key has two sessions.
\<close>

theorem C1_overlapping_runs_counterexample:
  "map fst (sessionQuery ''u1'' ''2024-03-01'' (db_attendanceSessions ex_db)) = [''s1'', ''s2'']
   \<and> map fst (sessionQuery ''u1'' ''2024-03-01''
        (db_attendanceSessions (rebuildCommitStore ex_other_scan ex_db))) = [''m'']
   \<and> map fst (sessionQuery ''u1'' ''2024-03-01''
        (db_attendanceSessions
           (rebuildSessionsForDay_among ex_other_scan (Some ''u1'') (Some ex_profile) ''n''
              ''2024-03-01'' ex_db))) = [''m'', ''n'']
   \<and> length (sessionQuery ''u1'' ''2024-03-01''
        (db_attendanceSessions
           (rebuildSessionsForDay_among ex_other_scan (Some ''u1'') (Some ex_profile) ''n''
              ''2024-03-01'' ex_db))) = 2"
proof -
  have rd: "rebuildReadStore ex_other_scan ex_db = ex_db"
    by (simp add: rebuildReadStore_def ex_other_scan_def)
  have cm: "rebuildCommitStore ex_other_scan ex_db
            = rebuildSessionsForDay (Some ''u1'') (Some ex_profile) ''m'' ''2024-03-01'' ex_db"
    by (simp add: rebuildCommitStore_def rd) (simp add: ex_other_scan_def)
  have m: "''m'' \<notin> docIds (db_attendanceSessions ex_db)"
    by (simp add: ex_db_sessions_ids)
  have other: "sessionQuery ''u1'' ''2024-03-01''
                 (db_attendanceSessions (rebuildCommitStore ex_other_scan ex_db))
               = [(''m'', rebuiltSession ''u1'' ex_profile ''2024-03-01'' ex_db)]"
    unfolding cm rebuild_sessions
    by (rule replaceSession_own_key [OF m rebuiltSession_key(1) rebuiltSession_key(2)])
  have ids: "docIds (db_attendanceSessions (rebuildCommitStore ex_other_scan ex_db))
             \<subseteq> {''m'', ''s1'', ''s2'', ''s3''}"
    unfolding cm rebuild_sessions
    using replaceSession_docIds [OF m, of "''u1''" "''2024-03-01''"
        "rebuiltSession ''u1'' ex_profile ''2024-03-01'' ex_db"]
    by (auto simp: ex_db_sessions_ids)
  then have n: "''n'' \<notin> docIds (db_attendanceSessions (rebuildCommitStore ex_other_scan ex_db))"
    by auto
  have read: "docIds (sessionQuery ''u1'' ''2024-03-01'' (db_attendanceSessions ex_db))
              = {''s1'', ''s2''}"
    by (auto simp: docIds_def sessionQuery_def ex_db_def ex_stale_key)
  have "sessionQuery ''u1'' ''2024-03-01''
        (db_attendanceSessions
           (rebuildSessionsForDay_among ex_other_scan (Some ''u1'') (Some ex_profile) ''n''
              ''2024-03-01'' ex_db))
        = unreadSessions ''u1'' ''2024-03-01'' (db_attendanceSessions ex_db)
            (db_attendanceSessions (rebuildCommitStore ex_other_scan ex_db))
          @ [(''n'', rebuiltSession ''u1'' ex_profile ''2024-03-01''
                      ((ex_other_scan AwaitLogs ex_db)\<lparr> db_settings :=
                         db_settings (ex_other_scan AwaitSettings (ex_other_scan AwaitLogs ex_db)) \<rparr>))]"
    unfolding rebuild_among_sessions rd
    by (rule sessionQuery_after_commit [OF n rebuiltSession_key(1) rebuiltSession_key(2)])
  moreover have "map fst (sessionQuery ''u1'' ''2024-03-01'' (db_attendanceSessions ex_db))
                 = [''s1'', ''s2'']"
    by (simp add: sessionQuery_def ex_db_def ex_stale_key)
  ultimately show ?thesis
    by (simp add: unreadSessions_def other read)
qed

theorem C6_idempotent_witness:
  "map snd (db_attendanceSessions
      (rebuildSessionsForDay (Some ''u1'') (Some ex_profile) ''m'' ''2024-03-01''
         (rebuildSessionsForDay (Some ''u1'') (Some ex_profile) ''n'' ''2024-03-01'' ex_db)))
     = map snd (db_attendanceSessions
         (rebuildSessionsForDay (Some ''u1'') (Some ex_profile) ''n'' ''2024-03-01'' ex_db))
   \<and> (\<exists>db1 db2.
         recomputeSessionsForRange ex_refs (ex_at 0 0) (ex_at 23 59) [ex_profile] ex_db = Inr db1
         \<and> recomputeSessionsForRange ex_refs2 (ex_at 0 0) (ex_at 23 59) [ex_profile] db1 = Inr db2
         \<and> map snd (db_attendanceSessions db2) = map snd (db_attendanceSessions db1))"
proof -
  have h1: "distinct (map fst (db_attendanceSessions ex_db))
      \<and> ''n'' \<notin> docIds (db_attendanceSessions ex_db) \<and> ''m'' \<notin> docIds (db_attendanceSessions ex_db)
      \<and> ''n'' \<noteq> ''m''"
    by (simp add: ex_db_sessions_ids)
  have h2: "wellFormedKeys (ex_at 0 0) (ex_at 23 59) (db_attendance ex_db) \<and> inj ex_refs
        \<and> inj ex_refs2 \<and> distinct (map fst (db_attendanceSessions ex_db))
        \<and> range ex_refs \<inter> docIds (db_attendanceSessions ex_db) = {}
        \<and> range ex_refs2 \<inter> (docIds (db_attendanceSessions ex_db) \<union> range ex_refs) = {}"
    by (intro conjI ex_db_wellFormed ex_refs_inj ex_db_sessions_ids(2) ex_refs_fresh)
  from C6_idempotent [of ex_db "''n''" "''m''" "''u1''" ex_profile "''2024-03-01''"
      "ex_at 0 0" "ex_at 23 59" ex_refs ex_refs2 "[ex_profile]"]
  show ?thesis using h1 h2 by blast
qed

section \<open>The two paths compared\<close>

lemma ses_endpoints_sessionDoc:
  "ses_checkInTime (sessionDoc cfg owner dk fci lco) = map_option fst fci"
  "ses_checkOutTime (sessionDoc cfg owner dk fci lco) = map_option fst lco"
  by (simp_all add: sessionDoc_def Let_def)

lemma ex_untyped_rebuilt:
  "rebuiltSession ''u1'' ex_profile ''2024-03-01'' ex_untyped_db
     = sessionDoc DEFAULT_BUFFER_SETTINGS (ex_owner 10 15) ''2024-03-01'' None None"
  by (simp add: rebuiltSession_def dayLogs_def ex_untyped_db_def ex_log_def isDeleted_def
      jsReduce_def getBufferSettings_def normalizeSetting_def DEFAULT_BUFFER_SETTINGS_def
      ownerOfProfile_def ex_profile_def ex_owner_def Let_def)

lemma ex_untyped_groups:
  "rangeGroups (ex_at 0 0) (ex_at 23 59) (db_attendance ex_untyped_db)
     = [(''u1|2024-03-01'',
         [\<lparr> gl_scanType = CheckIn, gl_scanTime = ex_at 7 55, gl_userId = ''u1'',
            gl_userEmail = ''ali@ttl.my'', gl_siteId = ''site1'', gl_siteName = ''Site 1'',
            gl_dateKey = ''2024-03-01'' \<rparr>])]"
  by (simp add: rangeGroups_def ex_untyped_db_def ex_log_def isDeleted_def groupStep_def
      sessionKey_def mapSet_def Let_def ex_at_def)

lemma ex_untyped_recomputed:
  "recomputeSessionsForRange ex_refs (ex_at 0 0) (ex_at 23 59) [ex_profile] ex_untyped_db
     = Inr (ex_untyped_db\<lparr> db_attendanceSessions :=
              [(''n'', sessionDoc DEFAULT_BUFFER_SETTINGS (ex_owner 10 15) ''2024-03-01''
                         (Some (ex_at 7 55, ''site1'', ''Site 1'')) None)] \<rparr>)"
  unfolding recomputeSessionsForRange_def Let_def ex_untyped_groups
  by (simp add: recomputedSession_def jsReduce_def endpointOfGrouped_def
      replaceSession_def sessionQuery_def batchCommit_def Let_def ex_refs_def
      ex_profile_def ex_owner_def)
     (simp add: ex_untyped_db_def getBufferSettings_def normalizeSetting_def
      DEFAULT_BUFFER_SETTINGS_def)

lemma groupStep_toGrouped:
  "\<not> isDeleted l \<Longrightarrow>
     groupStep l g
       = mapSet (logKey l) ((case map_of g (logKey l) of Some x \<Rightarrow> x | None \<Rightarrow> []) @ [toGrouped l]) g"
  by (simp add: groupStep_def Let_def logKey_def logDateKey_def toGrouped_def)

lemma map_of_replace_other:
  "k' \<noteq> k \<Longrightarrow> map_of (map (\<lambda>e. if fst e = k then (k, v) else e) m) k' = map_of m k'"
  by (induction m) auto

lemma map_of_replace_same:
  "k \<in> fst ` set m \<Longrightarrow> map_of (map (\<lambda>e. if fst e = k then (k, v) else e) m) k = Some v"
  by (induction m) auto

lemma map_of_mapSet: "map_of (mapSet k v m) = (map_of m)(k \<mapsto> v)"
proof (cases "k \<in> fst ` set m")
  case True
  show ?thesis
  proof
    fix k'
    show "map_of (mapSet k v m) k' = ((map_of m)(k \<mapsto> v)) k'"
      using True by (cases "k' = k") (simp_all add: mapSet_def map_of_replace_other map_of_replace_same)
  qed
next
  case False
  then have "map_of m k = None" by (simp add: map_of_eq_None_iff)
  then show ?thesis
    using False by (auto simp: mapSet_def map_add_def fun_eq_iff split: option.splits)
qed

lemma fold_groupStep_lookup:
  "map_of (fold groupStep ls g) k =
     (if filter (\<lambda>l. \<not> isDeleted l \<and> logKey l = k) ls = [] then map_of g k
      else Some ((case map_of g k of Some x \<Rightarrow> x | None \<Rightarrow> [])
                 @ map toGrouped (filter (\<lambda>l. \<not> isDeleted l \<and> logKey l = k) ls)))"
proof (induction ls arbitrary: g)
  case Nil
  then show ?case by simp
next
  case (Cons l ls)
  show ?case
  proof (cases "isDeleted l")
    case True
    then show ?thesis by (simp add: groupStep_deleted Cons.IH)
  next
    case False
    show ?thesis
      by (simp add: Cons.IH groupStep_toGrouped [OF False] map_of_mapSet False)
  qed
qed

lemma jsReduce_map:
  assumes "\<And>a b. f' (g a) (g b) = g (f a b)"
  shows "jsReduce f' (map g xs) = map_option g (jsReduce f xs)"
proof (cases xs)
  case Nil
  then show ?thesis by (simp add: jsReduce_def)
next
  case (Cons x rest)
  have "foldl f' (g a) (map g ys) = g (foldl f a ys)" for a ys
    by (induction ys arbitrary: a) (simp_all add: assms)
  then show ?thesis by (simp add: jsReduce_def Cons)
qed

lemma toGrouped_fields:
  "gl_scanTime (toGrouped l) = log_scanTime l"
  "endpointOfGrouped (toGrouped l) = endpointOfLog l"
  "log_scanType l \<noteq> None \<Longrightarrow> gl_scanType (toGrouped l) = k \<longleftrightarrow> log_scanType l = Some k"
  by (auto simp: toGrouped_def endpointOfGrouped_def endpointOfLog_def)

lemma dayLogs_sorted: "sorted (map log_scanTime (dayLogs uid dk c))"
proof -
  have "sorted (map (log_scanTime \<circ> snd)
          (sort_key (log_scanTime \<circ> snd)
             (filter (\<lambda>d. log_userId (snd d) = uid \<and> log_status (snd d) = Success
                            \<and> log_dateKey (snd d) = Some dk) c)))"
    by (rule sorted_sort_key)
  then have "sorted (map log_scanTime (map snd
          (sort_key (log_scanTime \<circ> snd)
             (filter (\<lambda>d. log_userId (snd d) = uid \<and> log_status (snd d) = Success
                            \<and> log_dateKey (snd d) = Some dk) c))))"
    by (simp add: comp_def)
  then show ?thesis
    unfolding dayLogs_def Let_def by (rule sorted_filter)
qed

lemma group_of_key:
  assumes "sameEvents uid dk s e c"
  shows "filter (\<lambda>l. \<not> isDeleted l \<and> logKey l = sessionKey uid dk)
           (map snd (sort_key (log_scanTime \<circ> snd)
              (filter (\<lambda>d. log_status (snd d) = Success \<and> log_scanTime (snd d) \<ge> s
                             \<and> log_scanTime (snd d) \<le> e) c)))
         = dayLogs uid dk c"
proof -
  have "filter (\<lambda>d. \<not> isDeleted (snd d) \<and> logKey (snd d) = sessionKey uid dk)
          (filter (\<lambda>d. log_status (snd d) = Success \<and> log_scanTime (snd d) \<ge> s
                         \<and> log_scanTime (snd d) \<le> e) c)
        = filter (\<lambda>d. \<not> isDeleted (snd d))
            (filter (\<lambda>d. log_userId (snd d) = uid \<and> log_status (snd d) = Success
                           \<and> log_dateKey (snd d) = Some dk) c)"
    unfolding filter_filter using assms by (intro filter_cong) (auto simp: sameEvents_def)
  then show ?thesis
    by (simp add: dayLogs_def Let_def filter_map comp_def filter_sort)
qed

lemma rebuilt_in_rangeRun:
  assumes same: "sameEvents uid dk s e (db_attendance db)"
    and typed: "\<forall>l\<in>set (dayLogs uid dk (db_attendance db)). log_scanType l \<noteq> None"
    and some: "dayLogs uid dk (db_attendance db) \<noteq> []"
    and nb: "noBar uid" "noBar dk"
    and user: "fold (\<lambda>userItem acc. acc(prof_uid userItem \<mapsto> userItem)) users Map.empty uid
               = Some prof"
  shows "(uid, dk, rebuiltSession uid prof dk db) \<in> set (rangeRun s e users db)"
proof -
  let ?R = "dayLogs uid dk (db_attendance db)"
  let ?k = "sessionKey uid dk"
  let ?G = "rangeGroups s e (db_attendance db)"
  let ?um = "fold (\<lambda>userItem acc. acc(prof_uid userItem \<mapsto> userItem)) users Map.empty"
  let ?cfg = "getBufferSettings (db_settings db)"
  have "map_of ?G ?k = Some (map toGrouped ?R)"
    unfolding rangeGroups_def Let_def fold_groupStep_lookup group_of_key [OF same]
    using some by simp
  then have entry: "(?k, map toGrouped ?R) \<in> set ?G" by (rule map_of_SomeD)
  have sorted: "sort_key gl_scanTime (map toGrouped ?R) = map toGrouped ?R"
    by (rule sort_key_id_if_sorted) (simp add: comp_def toGrouped_fields dayLogs_sorted)
  have ins: "filter (\<lambda>l. gl_scanType l = CheckIn) (map toGrouped ?R)
             = map toGrouped (filter (\<lambda>l. log_scanType l = Some CheckIn) ?R)"
    unfolding filter_map comp_def
    using typed by (intro arg_cong [where f = "map toGrouped"] filter_cong)
                   (auto simp: toGrouped_fields)
  have outs: "filter (\<lambda>l. gl_scanType l = CheckOut) (map toGrouped ?R)
             = map toGrouped (filter (\<lambda>l. log_scanType l = Some CheckOut) ?R)"
    unfolding filter_map comp_def
    using typed by (intro arg_cong [where f = "map toGrouped"] filter_cong)
                   (auto simp: toGrouped_fields)
  have first: "jsReduce (\<lambda>prev next. if gl_scanTime prev \<le> gl_scanTime next then prev else next)
                 (map toGrouped xs)
               = map_option toGrouped
                   (jsReduce (\<lambda>prev next. if log_scanTime prev \<le> log_scanTime next then prev else next)
                      xs)" for xs
    by (rule jsReduce_map) (simp add: toGrouped_fields)
  have last: "jsReduce (\<lambda>prev next. if gl_scanTime prev \<ge> gl_scanTime next then prev else next)
                 (map toGrouped xs)
               = map_option toGrouped
                   (jsReduce (\<lambda>prev next. if log_scanTime prev \<ge> log_scanTime next then prev else next)
                      xs)" for xs
    by (rule jsReduce_map) (simp add: toGrouped_fields)
  have "recomputedSession ?cfg ?um (?k, map toGrouped ?R)
        = Inr (uid, dk, rebuiltSession uid prof dk db)"
    unfolding recomputedSession_def rebuiltSession_def
    by (simp add: jsSplit_sessionKey [OF nb] Let_def sorted ins outs first last user
        option.map_comp comp_def toGrouped_fields ownerOfProfile_def)
  then have "projr (recomputedSession ?cfg ?um (?k, map toGrouped ?R))
             = (uid, dk, rebuiltSession uid prof dk db)" by simp
  then show ?thesis
    unfolding rangeRun_def rangeSessions_def using entry by (metis (no_types, lifting) image_eqI list.set_map)
qed

lemma recompute_replaceAll:
  assumes "wellFormedKeys s e (db_attendance db)"
  shows "recomputeSessionsForRange refs s e users db
         = Inr (db\<lparr> db_attendanceSessions :=
                  replaceAll refs 0 (rangeRun s e users db) (db_attendanceSessions db) \<rparr>)"
proof -
  have "recomputeLoop (getBufferSettings (db_settings db))
                (fold (\<lambda>userItem acc. acc(prof_uid userItem \<mapsto> userItem)) users Map.empty)
                refs 0 (rangeGroups s e (db_attendance db)) (db_attendanceSessions db)
              = Inr (replaceAll refs 0 (rangeRun s e users db) (db_attendanceSessions db))"
    unfolding rangeRun_def
    by (rule recomputeLoop_replaceAll) (rule rangeSessions_results [OF assms])
  then show ?thesis by (simp add: recomputeSessionsForRange_def Let_def)
qed

text \<open>Where every log of the key carries a scan type, the two paths persist the same
  session for the key.\<close>

lemma paths_agree_when_typed:
  assumes same: "sameEvents uid dk s e (db_attendance db)"
    and typed: "\<forall>l\<in>set (dayLogs uid dk (db_attendance db)). log_scanType l \<noteq> None"
    and some: "dayLogs uid dk (db_attendance db) \<noteq> []"
    and nb: "noBar uid" "noBar dk"
    and user: "fold (\<lambda>userItem acc. acc(prof_uid userItem \<mapsto> userItem)) users Map.empty uid
               = Some prof"
    and wf: "wellFormedKeys s e (db_attendance db)"
    and refs: "inj refs" "distinct (map fst (db_attendanceSessions db))"
      "range refs \<inter> docIds (db_attendanceSessions db) = {}"
      "ref \<notin> docIds (db_attendanceSessions db)"
  shows "\<exists>db'. recomputeSessionsForRange refs s e users db = Inr db'
           \<and> map snd (sessionQuery uid dk (db_attendanceSessions db'))
             = map snd (sessionQuery uid dk
                 (db_attendanceSessions
                    (rebuildSessionsForDay (Some uid) (Some prof) ref dk db)))"
proof -
  let ?ts = "rangeRun s e users db"
  let ?ses = "rebuiltSession uid prof dk db"
  from rebuilt_in_rangeRun [OF same typed some nb user]
  obtain i where i: "i < length ?ts" "?ts ! i = (uid, dk, ?ses)"
    by (auto simp: in_set_conv_nth)
  have "sessionQuery uid dk (replaceAll refs 0 ?ts (db_attendanceSessions db))
        = [(refs (0 + i), ?ses)]"
    by (rule replaceAll_own_key [OF refs(1) freshFrom_initial [OF refs(2,3)]
          rangeRun_keyed [OF wf] rangeRun_distinct [OF wf] i])
  moreover have "sessionQuery uid dk
                 (db_attendanceSessions (rebuildSessionsForDay (Some uid) (Some prof) ref dk db))
        = [(ref, ?ses)]"
    using replaceSession_own_key [OF refs(4) rebuiltSession_key(1) rebuiltSession_key(2)]
    by (simp add: rebuild_sessions)
  ultimately show ?thesis by (simp add: recompute_replaceAll [OF wf])
qed

text \<open>
  C5.  The two paths are given the same logs, settings and user data, and persist
  different sessions when a successful log carries no scan type: the range recompute
  reads it as a check-in (\<open>data.scanType ?? "check-in"\<close>), the per-scan rebuild drops it
  from both the check-ins and the check-outs.  Here the only log of the day is such a
  log: the rebuild persists a session without check-in, the recompute one with the
  check-in at 07:55.
\<close>

theorem C5_untyped_log_paths_differ:
  "db_attendanceSessions
     (rebuildSessionsForDay (Some ''u1'') (Some ex_profile) ''n'' ''2024-03-01'' ex_untyped_db)
     = [(''n'', sessionDoc DEFAULT_BUFFER_SETTINGS (ex_owner 10 15) ''2024-03-01'' None None)]
   \<and> recomputeSessionsForRange ex_refs (ex_at 0 0) (ex_at 23 59) [ex_profile] ex_untyped_db
     = Inr (ex_untyped_db\<lparr> db_attendanceSessions :=
              [(''n'', sessionDoc DEFAULT_BUFFER_SETTINGS (ex_owner 10 15) ''2024-03-01''
                         (Some (ex_at 7 55, ''site1'', ''Site 1'')) None)] \<rparr>)
   \<and> ses_checkInTime (sessionDoc DEFAULT_BUFFER_SETTINGS (ex_owner 10 15) ''2024-03-01'' None None)
     = None
   \<and> ses_checkInTime (sessionDoc DEFAULT_BUFFER_SETTINGS (ex_owner 10 15) ''2024-03-01''
                         (Some (ex_at 7 55, ''site1'', ''Site 1'')) None)
     = Some (ex_at 7 55)
   \<and> ses_abnormalReasons
       (sessionDoc DEFAULT_BUFFER_SETTINGS (ex_owner 10 15) ''2024-03-01'' None None)
     = [''Missing check-in'', ''Missing check-out'']
   \<and> ses_abnormalReasons
       (sessionDoc DEFAULT_BUFFER_SETTINGS (ex_owner 10 15) ''2024-03-01''
          (Some (ex_at 7 55, ''site1'', ''Site 1'')) None)
     = [''Missing check-out'']"
  by (simp add: ex_untyped_recomputed rebuild_sessions ex_untyped_rebuilt ses_endpoints_sessionDoc
      session_eval)
     (simp add: replaceSession_def sessionQuery_def batchCommit_def Let_def ex_untyped_db_def)

section \<open>Properties of the scan handler\<close>

subsection \<open>The scan kind\<close>

lemma find_take_reaches:
  assumes "length (takeWhile (\<lambda>x. \<not> P x) xs) < n"
  shows "find P (take n xs) = find P xs"
  using assms
proof (induction xs arbitrary: n)
  case Nil
  then show ?case by simp
next
  case (Cons x xs)
  show ?case
  proof (cases n)
    case 0
    then show ?thesis using Cons.prems by simp
  next
    case (Suc m)
    show ?thesis
    proof (cases "P x")
      case True
      then show ?thesis by (simp add: Suc)
    next
      case False
      then have "length (takeWhile (\<lambda>x. \<not> P x) xs) < m" using Cons.prems Suc by simp
      then show ?thesis using False by (simp add: Suc Cons.IH)
    qed
  qed
qed

lemma find_take_misses:
  assumes "n \<le> length (takeWhile (\<lambda>x. \<not> P x) xs)"
  shows "find P (take n xs) = None"
  using assms
proof (induction xs arbitrary: n)
  case Nil
  then show ?case by simp
next
  case (Cons x xs)
  show ?case
  proof (cases n)
    case 0
    then show ?thesis by simp
  next
    case (Suc m)
    then show ?thesis using Cons.prems Cons.IH [of m] by (cases "P x") auto
  qed
qed

lemma dailySnapshot_take:
  "dailySnapshot uid siteId dk c = take 10 (spec_recentLogs uid siteId dk c)"
  by (simp add: dailySnapshot_def spec_recentLogs_def take_map)

lemma nextScanType_spec:
  "nextScanType snapshot = spec_scanKind snapshot"
  by (auto simp: nextScanType_def spec_scanKind_def Let_def split: option.splits scan_type.splits)

text \<open>The handler's scan kind is the one of step 6 exactly when fewer than ten deleted logs
  are more recent than the most recent log that is not deleted, or step 6 gives a
  check-in.\<close>

lemma scanKind_agrees_iff:
  "nextScanType (dailySnapshot uid siteId dk c) = spec_scanKind (spec_recentLogs uid siteId dk c)
   \<longleftrightarrow> length (takeWhile isDeleted (spec_recentLogs uid siteId dk c)) < 10
       \<or> spec_scanKind (spec_recentLogs uid siteId dk c) = CheckIn"
proof (cases "length (takeWhile isDeleted (spec_recentLogs uid siteId dk c)) < 10")
  case True
  then have "find (\<lambda>l. \<not> isDeleted l) (take 10 (spec_recentLogs uid siteId dk c))
        = find (\<lambda>l. \<not> isDeleted l) (spec_recentLogs uid siteId dk c)"
    by (intro find_take_reaches) simp
  then show ?thesis
    using True by (simp add: nextScanType_spec dailySnapshot_take spec_scanKind_def)
next
  case False
  then have "find (\<lambda>l. \<not> isDeleted l) (take 10 (spec_recentLogs uid siteId dk c)) = None"
    by (intro find_take_misses) simp
  then have "nextScanType (dailySnapshot uid siteId dk c) = CheckIn"
    by (simp add: nextScanType_spec dailySnapshot_take spec_scanKind_def)
  then show ?thesis using False by auto
qed

subsection \<open>One call\<close>

lemma awaitAt_no_timeout: "env_timeoutDuring env = None \<Longrightarrow> awaitAt env aw st = st"
  by (simp add: awaitAt_def)

lemma logAttendanceFailure_no_timeout:
  assumes "env_timeoutDuring env = None"
  shows "logAttendanceFailure env aw (Some uid) (Some prof) reason loc dst coords st =
     (case env_fail env aw of
        Some err \<Rightarrow> (st, Some err)
      | None \<Rightarrow> (st\<lparr> st_db := addDoc (env_newLogId env)
                                   (failureLog env uid prof reason loc dst coords) (st_db st) \<rparr>,
                 None))"
  by (simp add: logAttendanceFailure_def awaitAt_no_timeout [OF assms] Let_def)

lemma failureLog_fields:
  "log_status (failureLog env uid prof reason loc dst coords) = Fail"
  "log_failReason (failureLog env uid prof reason loc dst coords) = Some reason"
  "log_scanType (failureLog env uid prof reason loc dst coords) = None"
  "log_siteId (failureLog env uid prof reason loc dst coords)
     = (case loc of None \<Rightarrow> ''unknown'' | Some l \<Rightarrow> fst l)"
  "log_distanceMeters (failureLog env uid prof reason loc dst coords) = dst"
  "log_userLat (failureLog env uid prof reason loc dst coords) = map_option fst coords"
  "log_userLng (failureLog env uid prof reason loc dst coords) = map_option snd coords"
  "log_allowedRadiusMeters (failureLog env uid prof reason loc dst coords)
     = map_option (\<lambda>l. site_allowedRadiusMeters (snd l)) loc"
  by (simp_all add: failureLog_def Let_def)

lemma successLog_fields:
  "log_status (successLog env uid prof loc dk pos dst kind) = Success"
  "log_scanType (successLog env uid prof loc dk pos dst kind) = Some kind"
  "log_failReason (successLog env uid prof loc dk pos dst kind) = None"
  "log_siteId (successLog env uid prof loc dk pos dst kind) = fst loc"
  "log_distanceMeters (successLog env uid prof loc dk pos dst kind) = Some dst"
  by (simp_all add: successLog_def Let_def)

lemma finish_db: "st_db (finish msg status st) = st_db st"
  by (simp add: finish_def)

lemma addDoc_fields:
  "db_attendance (addDoc ref l db) = db_attendance db @ [(ref, l)]"
  "db_attendanceSessions (addDoc ref l db) = db_attendanceSessions db"
  "db_sites (addDoc ref l db) = db_sites db"
  "db_settings (addDoc ref l db) = db_settings db"
  by (simp_all add: addDoc_def)

text \<open>The store after a call that passes every check.\<close>

lemma handleScan_passes:
  assumes "env_timeoutDuring env = None" "scanPasses env rawValue db"
    "lookupSite rawValue db = Some loc"
  shows "fst (handleScan env (Some uid) (Some prof) False rawValue db) =
     (let dk = getDateKey (env_clientNow env);
          kind = nextScanType (dailySnapshot uid (fst loc) dk (db_attendance db));
          db1 = addDoc (env_newLogId env)
                  (successLog env uid prof loc dk (env_position env) (measuredDistance env loc) kind)
                  db
      in case env_fail env AwRebuild of
           Some err \<Rightarrow> db1
         | None \<Rightarrow> rebuildSessionsForDay (Some uid) (Some prof) (env_newSessionId env) dk db1)"
  using assms
  by (auto simp: handleScan_def tryBlock_def Let_def scanPasses_def lookupSite_def
      measuredDistance_def awaitAt_no_timeout finish_db
      split: list.splits option.splits)

lemmas scan_unfold =
  handleScan_def tryBlock_def catchBlock_def Let_def awaitAt_no_timeout
  logAttendanceFailure_no_timeout finish_def

lemma lookupSite_None:
  "lookupSite rawValue db = None \<Longrightarrow>
     filter (\<lambda>d. site_nameNormalized (snd d) = normalizeSiteName rawValue) (db_sites db) = []"
  by (simp add: lookupSite_def split: list.splits)

lemma lookupSite_Some:
  "lookupSite rawValue db = Some loc \<Longrightarrow>
     \<exists>rest. filter (\<lambda>d. site_nameNormalized (snd d) = normalizeSiteName rawValue) (db_sites db)
             = loc # rest"
  by (simp add: lookupSite_def split: list.splits)

lemma handleScan_fails:
  assumes nt: "env_timeoutDuring env = None" and cl: "env_fail env AwCatchLog = None"
    and np: "\<not> scanPasses env rawValue db"
  shows "\<exists>reason dst coords.
     fst (handleScan env (Some uid) (Some prof) False rawValue db)
       = addDoc (env_newLogId env)
           (failureLog env uid prof reason (knownSite env rawValue db) dst coords) db
     \<and> (outsideRadius env rawValue db \<and> env_fail env AwOutsideLog = None \<longrightarrow>
          reason = ''Outside allowed radius.''
          \<and> dst = map_option (measuredDistance env) (lookupSite rawValue db)
          \<and> coords = Some (env_position env))"
proof (cases "normalizeSiteName rawValue = []")
  case True
  then have ks: "knownSite env rawValue db = None" "\<not> outsideRadius env rawValue db"
    by (simp_all add: knownSite_def outsideRadius_def)
  show ?thesis
    by (cases "env_fail env AwInvalidLog"; simp add: scan_unfold nt cl True ks) blast+
next
  case nonempty: False
  show ?thesis
  proof (cases "env_fail env AwSiteQuery")
    case (Some err)
    then have ks: "knownSite env rawValue db = None" "\<not> outsideRadius env rawValue db"
      by (simp_all add: knownSite_def outsideRadius_def)
    show ?thesis by (simp add: scan_unfold nt cl nonempty Some ks) blast+
  next
    case sq: None
    show ?thesis
    proof (cases "lookupSite rawValue db")
      case None
      then have ks: "knownSite env rawValue db = None" "\<not> outsideRadius env rawValue db"
        by (simp_all add: knownSite_def outsideRadius_def)
      show ?thesis
        by (cases "env_fail env AwNotFoundLog"; simp add: scan_unfold nt cl nonempty sq ks lookupSite_None [OF None]) blast+
    next
      case (Some loc)
      from lookupSite_Some [OF Some] obtain rest where
        flt: "filter (\<lambda>d. site_nameNormalized (snd d) = normalizeSiteName rawValue) (db_sites db)
              = loc # rest" by blast
      have ks: "knownSite env rawValue db = Some loc"
        by (simp add: knownSite_def nonempty sq Some)
      show ?thesis
      proof (cases "env_fail env AwPosition")
        case pe: (Some err)
        then have "\<not> outsideRadius env rawValue db" by (simp add: outsideRadius_def Some)
        then show ?thesis by (simp add: scan_unfold nt cl nonempty sq ks flt pe) blast
      next
        case pos: None
        show ?thesis
        proof (cases "measuredDistance env loc > site_allowedRadiusMeters (snd loc)")
          case far: True
          then have far': "site_allowedRadiusMeters (snd loc)
              < haversineDistance (fst (env_position env)) (snd (env_position env))
                  (site_lat (snd loc)) (site_lng (snd loc))"
            by (simp add: measuredDistance_def)
          show ?thesis
            by (cases "env_fail env AwOutsideLog"; simp add: scan_unfold nt cl nonempty sq ks flt pos far' Some
                  measuredDistance_def) blast+
        next
          case near: False
          then have near': "\<not> site_allowedRadiusMeters (snd loc)
              < haversineDistance (fst (env_position env)) (snd (env_position env))
                  (site_lat (snd loc)) (site_lng (snd loc))"
            by (simp add: measuredDistance_def)
          have no: "\<not> outsideRadius env rawValue db"
            using near by (simp add: outsideRadius_def Some)
          show ?thesis
          proof (cases "env_fail env AwDailyQuery")
            case dq: (Some err)
            show ?thesis by (simp add: scan_unfold nt cl nonempty sq ks flt pos near' no dq) blast
          next
            case dq: None
            then obtain err where ad: "env_fail env AwAddDoc = Some err"
              using np nonempty sq Some pos near by (auto simp: scanPasses_def)
            show ?thesis by (simp add: scan_unfold nt cl nonempty sq ks flt pos near' no dq ad) blast
          qed
        qed
      qed
    qed
  qed
qed

subsection \<open>The example calls\<close>

lemma ex_token_normalized: "normalizeSiteName ''Site 1'' = ''site 1''"
  by code_simp

lemma ex_scan_day: "getDateKey (ex_at 18 0) = ''2024-03-01''"
  by code_simp

lemma haversine_same_point: "haversineDistance lat lon lat lon = 0"
  by (simp add: haversineDistance_def toRad_def atan2_def Let_def)

lemma ex_env_fields:
  "env_timeoutDuring ex_env = None" "env_fail ex_env aw = None" "env_position ex_env = (0, 101)"
  "env_clientNow ex_env = ex_at 18 0" "env_newLogId ex_env = ''a3''"
  by (simp_all add: ex_env_def)

lemma ex_lookup:
  "lookupSite ''Site 1'' ex_day_db = Some (''site1'', ex_site)"
  "lookupSite ''Site 1'' ex_deleted_db = Some (''site1'', ex_site)"
  by (simp_all add: lookupSite_def ex_token_normalized ex_day_db_def ex_deleted_db_def ex_site_def)

lemma ex_passes:
  "scanPasses ex_env ''Site 1'' ex_day_db" "scanPasses ex_env ''Site 1'' ex_deleted_db"
  by (simp_all add: scanPasses_def ex_token_normalized ex_lookup ex_env_fields measuredDistance_def
      haversine_same_point ex_site_def)

lemma ex_deleted_recent:
  "spec_recentLogs ''u1'' ''site1'' ''2024-03-01'' (db_attendance ex_deleted_db)
     = map (\<lambda>i. ex_log (ex_at 9 (int i)) (Some CheckOut) True) (rev [0 ..< 10])
       @ [ex_log (ex_at 8 0) (Some CheckIn) False]"
  by (simp add: spec_recentLogs_def ex_deleted_db_def ex_log_def ex_at_def upt_rec
      numeral_eq_Suc)

subsection \<open>Scan kind and events written\<close>

lemma handleScan_passes_attendance:
  assumes "env_timeoutDuring env = None" "scanPasses env rawValue db"
    "lookupSite rawValue db = Some loc"
  shows "db_attendance (fst (handleScan env (Some uid) (Some prof) False rawValue db))
     = db_attendance db
       @ [(env_newLogId env,
           successLog env uid prof loc (getDateKey (env_clientNow env)) (env_position env)
             (measuredDistance env loc)
             (nextScanType (dailySnapshot uid (fst loc) (getDateKey (env_clientNow env))
                              (db_attendance db))))]"
  by (simp add: handleScan_passes [OF assms] Let_def rebuild_other_collections addDoc_fields
      split: option.splits)

text \<open>A passing attempt writes one success event; its scan kind is the one of step 6
  unless ten or more deleted logs hide a log that is not deleted and not a check-out.\<close>

lemma handleScan_scan_kind:
  assumes "env_timeoutDuring env = None" "scanPasses env rawValue db"
    "lookupSite rawValue db = Some loc"
  shows "\<exists>l. db_attendance (fst (handleScan env (Some uid) (Some prof) False rawValue db))
               = db_attendance db @ [(env_newLogId env, l)]
             \<and> log_status l = Success
             \<and> (log_scanType l =
                  Some (spec_scanKind
                    (spec_recentLogs uid (fst loc) (getDateKey (env_clientNow env))
                       (db_attendance db)))
                \<longleftrightarrow> length (takeWhile isDeleted
                              (spec_recentLogs uid (fst loc) (getDateKey (env_clientNow env))
                                 (db_attendance db))) < 10
                    \<or> spec_scanKind
                         (spec_recentLogs uid (fst loc) (getDateKey (env_clientNow env))
                            (db_attendance db)) = CheckIn)"
  using handleScan_passes_attendance [OF assms(1-3), of uid prof]
    scanKind_agrees_iff [of uid "fst loc" "getDateKey (env_clientNow env)" "db_attendance db"]
  by (simp add: successLog_fields)

text \<open>Scenario E: after a check-in and a check-out, the third scan of the day is a
  check-in.\<close>

lemma ex_third_scan_is_check_in:
  "spec_recentLogs ''u1'' ''site1'' ''2024-03-01'' (db_attendance ex_day_db)
     = [ex_log (ex_at 17 3) (Some CheckOut) False, ex_log (ex_at 7 55) (Some CheckIn) False]
   \<and> (\<exists>l. db_attendance (fst (handleScan ex_env (Some ''u1'') (Some ex_profile) False ''Site 1''
                                   ex_day_db))
             = db_attendance ex_day_db @ [(''a3'', l)]
           \<and> log_status l = Success \<and> log_scanType l = Some CheckIn)"
proof -
  have recent: "spec_recentLogs ''u1'' ''site1'' ''2024-03-01'' (db_attendance ex_day_db)
     = [ex_log (ex_at 17 3) (Some CheckOut) False, ex_log (ex_at 7 55) (Some CheckIn) False]"
    by (simp add: spec_recentLogs_def ex_day_db_def ex_log_def ex_at_def)
  have kind: "spec_scanKind
       [ex_log (ex_at 17 3) (Some CheckOut) False, ex_log (ex_at 7 55) (Some CheckIn) False]
     = CheckIn"
    by (simp add: spec_scanKind_def isDeleted_def ex_log_def)
  from handleScan_scan_kind [OF ex_env_fields(1) ex_passes(1) ex_lookup(1), of "''u1''" ex_profile]
  show ?thesis by (simp add: recent kind ex_env_fields ex_scan_day)
qed

text \<open>
  C7.  The handler looks for the most recent log that is not deleted, but among the ten
  most recent successful logs only: the limit of the query applies before the deleted logs
  are filtered out.  Here the day has a check-in at 08:00 that is not deleted and ten later
  logs, all deleted.  The most recent log that is not deleted is the check-in, so the scan
  is a check-out by step 6; the handler finds no log among the ten and writes a check-in.
\<close>

theorem C7_ten_deleted_logs_hide_check_in:
  "scanPasses ex_env ''Site 1'' ex_deleted_db
   \<and> find (\<lambda>l. \<not> isDeleted l)
        (spec_recentLogs ''u1'' ''site1'' ''2024-03-01'' (db_attendance ex_deleted_db))
      = Some (ex_log (ex_at 8 0) (Some CheckIn) False)
   \<and> spec_scanKind (spec_recentLogs ''u1'' ''site1'' ''2024-03-01'' (db_attendance ex_deleted_db))
      = CheckOut
   \<and> map (log_scanType \<circ> snd)
        (drop 11 (db_attendance
           (fst (handleScan ex_env (Some ''u1'') (Some ex_profile) False ''Site 1'' ex_deleted_db))))
      = [Some CheckIn]"
proof -
  have found: "find (\<lambda>l. \<not> isDeleted l)
        (spec_recentLogs ''u1'' ''site1'' ''2024-03-01'' (db_attendance ex_deleted_db))
      = Some (ex_log (ex_at 8 0) (Some CheckIn) False)"
    by (simp add: ex_deleted_recent isDeleted_def ex_log_def upt_rec numeral_eq_Suc)
  have spec: "spec_scanKind
        (spec_recentLogs ''u1'' ''site1'' ''2024-03-01'' (db_attendance ex_deleted_db)) = CheckOut"
    unfolding spec_scanKind_def found by (simp add: ex_log_def)
  have code: "nextScanType (dailySnapshot ''u1'' ''site1'' ''2024-03-01''
                 (db_attendance ex_deleted_db)) = CheckIn"
    by (simp add: nextScanType_def dailySnapshot_take ex_deleted_recent isDeleted_def ex_log_def
        upt_rec numeral_eq_Suc Let_def)
  have len: "length (db_attendance ex_deleted_db) = 11"
    by (simp add: ex_deleted_db_def)
  show ?thesis
    using found spec ex_passes(2)
    by (simp add: handleScan_passes_attendance [OF ex_env_fields(1) ex_passes(2) ex_lookup(2)]
        ex_env_fields ex_scan_day code len successLog_fields)
qed

text \<open>
  C8, amended.  Every invocation of the scan handler by a signed-in user, while no scan
  is being processed, during which the timer does not fire and whose fail-event write in
  the \<open>catch\<close> block is not rejected, writes exactly one scan event: a success event when
  all checks pass, otherwise a fail event with a reason, the site if the lookup had
  returned it, and for a geofence rejection the measured distance and the coordinates.
  After a failing step nothing more is done: no session is rebuilt.
\<close>

theorem C8_one_event:
  assumes "env_timeoutDuring env = None" "env_fail env AwCatchLog = None"
  shows "\<exists>l. db_attendance (fst (handleScan env (Some uid) (Some prof) False rawValue db))
               = db_attendance db @ [(env_newLogId env, l)]
     \<and> log_status l = (if scanPasses env rawValue db then Success else Fail)
     \<and> (\<not> scanPasses env rawValue db \<longrightarrow>
          log_failReason l \<noteq> None
          \<and> log_siteId l = (case knownSite env rawValue db of
                               None \<Rightarrow> ''unknown'' | Some site \<Rightarrow> fst site)
          \<and> (outsideRadius env rawValue db \<and> env_fail env AwOutsideLog = None \<longrightarrow>
               log_failReason l = Some ''Outside allowed radius.''
               \<and> log_distanceMeters l = map_option (measuredDistance env) (lookupSite rawValue db)
               \<and> log_userLat l = Some (fst (env_position env))
               \<and> log_userLng l = Some (snd (env_position env)))
          \<and> db_attendanceSessions (fst (handleScan env (Some uid) (Some prof) False rawValue db))
              = db_attendanceSessions db)"
proof (cases "scanPasses env rawValue db")
  case True
  then obtain loc where loc: "lookupSite rawValue db = Some loc"
    by (auto simp: scanPasses_def split: option.splits)
  show ?thesis
    using True
    by (simp add: handleScan_passes_attendance [OF assms(1) True loc] successLog_fields)
next
  case False
  from handleScan_fails [OF assms False, of uid prof]
  obtain reason dst coords where
    r: "fst (handleScan env (Some uid) (Some prof) False rawValue db)
          = addDoc (env_newLogId env)
              (failureLog env uid prof reason (knownSite env rawValue db) dst coords) db"
    and o: "outsideRadius env rawValue db \<and> env_fail env AwOutsideLog = None \<longrightarrow>
          reason = ''Outside allowed radius.''
          \<and> dst = map_option (measuredDistance env) (lookupSite rawValue db)
          \<and> coords = Some (env_position env)"
    by blast
  show ?thesis
    using False o by (simp add: r addDoc_fields failureLog_fields)
qed

lemma haversine_half_turn: "haversineDistance 0 (- 79) 0 101 = 6371000 * pi"
  by (simp add: haversineDistance_def toRad_def atan2_def Let_def)

lemma ex_far_outside:
  "outsideRadius ex_far_env ''Site 1'' ex_day_db" "\<not> scanPasses ex_far_env ''Site 1'' ex_day_db"
  "knownSite ex_far_env ''Site 1'' ex_day_db = Some (''site1'', ex_site)"
  "measuredDistance ex_far_env (''site1'', ex_site) = 6371000 * pi"
  using pi_ge_two
  by (simp_all add: outsideRadius_def scanPasses_def knownSite_def ex_token_normalized ex_lookup ex_far_env_def
      ex_env_def measuredDistance_def ex_site_def haversine_half_turn)

theorem C8_one_event_witness:
  "\<exists>l. db_attendance (fst (handleScan ex_far_env (Some ''u1'') (Some ex_profile) False ''Site 1''
                              ex_day_db))
         = db_attendance ex_day_db @ [(''a3'', l)]
       \<and> log_status l = Fail
       \<and> log_failReason l = Some ''Outside allowed radius.''
       \<and> log_siteId l = ''site1''
       \<and> log_distanceMeters l = Some (6371000 * pi)
       \<and> log_userLat l = Some 0 \<and> log_userLng l = Some (- 79)"
proof -
  have nt: "env_timeoutDuring ex_far_env = None" and cl: "env_fail ex_far_env AwCatchLog = None"
    and ol: "env_fail ex_far_env AwOutsideLog = None"
    and id: "env_newLogId ex_far_env = ''a3''" and pos: "env_position ex_far_env = (0, - 79)"
    by (simp_all add: ex_far_env_def ex_env_def)
  from C8_one_event [OF nt cl, of "''u1''" ex_profile "''Site 1''" ex_day_db]
  show ?thesis
    by (simp add: ex_far_outside ol id pos ex_lookup) blast
qed

text \<open>
  The claim as written, one event on every call, fails on each of the handler's three
  early returns: a call while another scan is being processed, a call without a
  signed-in user, and a call cancelled by the timer while the position is awaited write
  nothing.
\<close>

theorem C8_no_event_counterexample:
  "db_attendance (fst (handleScan ex_env (Some ''u1'') (Some ex_profile) True ''Site 1'' ex_day_db))
     = db_attendance ex_day_db
   \<and> db_attendance (fst (handleScan ex_env None None False ''Site 1'' ex_day_db))
     = db_attendance ex_day_db
   \<and> db_attendance (fst (handleScan ex_slow_env (Some ''u1'') (Some ex_profile) False ''Site 1''
                            ex_day_db))
     = db_attendance ex_day_db"
proof -
  have flt: "filter (\<lambda>d. site_nameNormalized (snd d) = ''site 1'') (db_sites ex_day_db)
             = [(''site1'', ex_site)]"
    by (simp add: ex_day_db_def ex_site_def)
  have slow: "fst (handleScan ex_slow_env (Some ''u1'') (Some ex_profile) False ''Site 1'' ex_day_db)
              = ex_day_db"
    by (simp add: handleScan_def tryBlock_def ex_token_normalized flt awaitAt_def finish_def ex_slow_env_def
        ex_env_def Let_def)
  show ?thesis by (simp add: slow) (simp add: handleScan_def)
qed

end
